theory Spec2Isabelle
  imports Complex_Main
begin

section \<open>Python values used by img2ascii.py\<close>

text \<open>
  The script computes with Python \<open>int\<close> (unbounded, modelled as \<^typ>\<open>int\<close>), \<open>float\<close>
  and \<open>str\<close> (modelled as \<^typ>\<open>string\<close>). What the interpreter raises is a value of
  \<open>pyerr\<close>. A \<open>float\<close> is an IEEE double. Two models of it are used. Where a result
  depends on how each operation rounds (the dimension formula, the value of the scaled
  luma) the operations are those of double precision, defined below: every result is
  rounded to the nearest double, a tie to the even one, with infinities and NaN. Where a
  property is an order or a bound that rounding preserves, the float is a \<^typ>\<open>real\<close>
  and the operations are exact.
\<close>

datatype pyerr = ZeroDivisionError | TypeError | IndexError | ValueError | OverflowError

text \<open>\<open>int(x)\<close> of a float truncates towards zero.\<close>

definition py_int :: "real \<Rightarrow> int" where
  "py_int x = (if 0 \<le> x then \<lfloor>x\<rfloor> else \<lceil>x\<rceil>)"

section \<open>Double precision\<close>

text \<open>
  A double is a real of the form \<open>m * 2 ^ e\<close> with \<open>|m| < 2 ^ 53\<close> and \<open>e\<close> from -1074 to
  971, an infinity or NaN; the sign of zero is not kept, no result of the script depends
  on it. \<open>fl\<close> rounds a real to the nearest such number with unbounded exponent above:
  \<open>ulp_exp\<close> is the exponent of the last place of its argument, \<open>rne\<close> rounds to the
  nearest integer and a tie to the even one. \<open>rnd\<close> adds the overflow to an infinity.
\<close>

definition rne :: "real \<Rightarrow> int" where
  "rne x = (let f = \<lfloor>x\<rfloor>; d = x - of_int f in
            if d < 1/2 then f else if 1/2 < d then f + 1 else if even f then f else f + 1)"

definition ulp_exp :: "real \<Rightarrow> int" where
  "ulp_exp x = max (\<lfloor>log 2 \<bar>x\<bar>\<rfloor> - 52) (- 1074)"

definition fl :: "real \<Rightarrow> real" where
  "fl x = (if x = 0 then 0 else of_int (rne (x / 2 powi ulp_exp x)) * 2 powi ulp_exp x)"

datatype f64 = Fin real | PInf | NInf | NaN

definition rnd :: "real \<Rightarrow> f64" where
  "rnd x = (let y = fl x in
            if 2 ^ 1024 \<le> y then PInf else if y \<le> - (2 ^ 1024) then NInf else Fin y)"

text \<open>\<open>x * y\<close> on two floats.\<close>

fun fmul :: "f64 \<Rightarrow> f64 \<Rightarrow> f64" where
  "fmul NaN y = NaN"
| "fmul x NaN = NaN"
| "fmul (Fin a) (Fin b) = rnd (a * b)"
| "fmul (Fin a) PInf = (if a = 0 then NaN else if 0 < a then PInf else NInf)"
| "fmul (Fin a) NInf = (if a = 0 then NaN else if 0 < a then NInf else PInf)"
| "fmul PInf (Fin b) = (if b = 0 then NaN else if 0 < b then PInf else NInf)"
| "fmul NInf (Fin b) = (if b = 0 then NaN else if 0 < b then NInf else PInf)"
| "fmul PInf PInf = PInf"
| "fmul PInf NInf = NInf"
| "fmul NInf PInf = NInf"
| "fmul NInf NInf = PInf"

declare fmul.simps [simp del]

text \<open>Negation, \<open>x + y\<close>, \<open>x - y\<close>, \<open>x < y\<close> and the absolute value on floats.\<close>

fun fneg :: "f64 \<Rightarrow> f64" where
  "fneg (Fin a) = Fin (- a)"
| "fneg PInf = NInf"
| "fneg NInf = PInf"
| "fneg NaN = NaN"

fun fadd :: "f64 \<Rightarrow> f64 \<Rightarrow> f64" where
  "fadd NaN y = NaN"
| "fadd x NaN = NaN"
| "fadd (Fin a) (Fin b) = rnd (a + b)"
| "fadd (Fin a) PInf = PInf"
| "fadd (Fin a) NInf = NInf"
| "fadd PInf (Fin b) = PInf"
| "fadd NInf (Fin b) = NInf"
| "fadd PInf PInf = PInf"
| "fadd PInf NInf = NaN"
| "fadd NInf PInf = NaN"
| "fadd NInf NInf = NInf"

declare fadd.simps [simp del]

definition fsub :: "f64 \<Rightarrow> f64 \<Rightarrow> f64" where
  "fsub x y = fadd x (fneg y)"

fun flt :: "f64 \<Rightarrow> f64 \<Rightarrow> bool" where
  "flt NaN y = False"
| "flt x NaN = False"
| "flt (Fin a) (Fin b) = (a < b)"
| "flt (Fin a) PInf = True"
| "flt (Fin a) NInf = False"
| "flt PInf y = False"
| "flt NInf NInf = False"
| "flt NInf y = True"

fun fabs :: "f64 \<Rightarrow> f64" where
  "fabs (Fin a) = Fin \<bar>a\<bar>"
| "fabs PInf = PInf"
| "fabs NInf = PInf"
| "fabs NaN = NaN"

text \<open>
  The conversion of an int that meets a float in \<open>float * int\<close>, and \<open>a / b\<close> on two
  ints: both are correctly rounded and raise when the result is too large for a double.
\<close>

definition float_of_int :: "int \<Rightarrow> pyerr + f64" where
  "float_of_int n =
     (let y = fl (real_of_int n) in
      if 2 ^ 1024 \<le> \<bar>y\<bar> then Inl OverflowError else Inr (Fin y))"

definition int_truediv :: "int \<Rightarrow> int \<Rightarrow> pyerr + f64" where
  "int_truediv a b =
     (if b = 0 then Inl ZeroDivisionError
      else let y = fl (real_of_int a / real_of_int b) in
           if 2 ^ 1024 \<le> \<bar>y\<bar> then Inl OverflowError else Inr (Fin y))"

text \<open>\<open>int(x)\<close> and \<open>round(x)\<close> of a float.\<close>

fun int_of_float :: "f64 \<Rightarrow> pyerr + int" where
  "int_of_float NaN = Inl ValueError"
| "int_of_float PInf = Inl OverflowError"
| "int_of_float NInf = Inl OverflowError"
| "int_of_float (Fin x) = Inr (py_int x)"

fun round_float :: "f64 \<Rightarrow> pyerr + int" where
  "round_float NaN = Inl ValueError"
| "round_float PInf = Inl OverflowError"
| "round_float NInf = Inl OverflowError"
| "round_float (Fin x) = Inr (rne x)"

text \<open>
  \<open>x ** y\<close> on two floats. Any base to the power zero is one; zero to a negative power
  raises; a negative base with an exponent that is not a whole number gives a value of
  type \<open>complex\<close> instead of a float.
\<close>

datatype pow_value = PowFloat real | PowComplex

definition py_pow :: "real \<Rightarrow> real \<Rightarrow> pyerr + pow_value" where
  "py_pow x y =
     (if y = 0 then Inr (PowFloat 1)
      else if x = 0 then (if y < 0 then Inl ZeroDivisionError else Inr (PowFloat 0))
      else if 0 < x then Inr (PowFloat (x powr y))
      else if y = real_of_int \<lfloor>y\<rfloor> then Inr (PowFloat (x powi \<lfloor>y\<rfloor>))
      else Inr PowComplex)"

text \<open>\<open>s[i]\<close> on a str: a negative index counts from the end, anything else raises.\<close>

definition py_getitem :: "string \<Rightarrow> int \<Rightarrow> pyerr + char" where
  "py_getitem s i =
     (let n = int (length s) in
      if 0 \<le> i \<and> i < n then Inr (s ! nat i)
      else if - n \<le> i \<and> i < 0 then Inr (s ! nat (i + n))
      else Inl IndexError)"

text \<open>\<open>sep.join(parts)\<close>.\<close>

fun str_join :: "string \<Rightarrow> string list \<Rightarrow> string" where
  "str_join sep [] = []"
| "str_join sep [s] = s"
| "str_join sep (s # t # ts) = s @ sep @ str_join sep (t # ts)"

text \<open>\<open>str(n)\<close> of an int, as the f-string of \<open>ansi_fg\<close> formats it: decimal digits.\<close>

definition digit_char :: "nat \<Rightarrow> char" where
  "digit_char d = char_of (48 + d)"

fun str_nat :: "nat \<Rightarrow> string" where
  "str_nat n = (if n < 10 then [digit_char n] else str_nat (n div 10) @ [digit_char (n mod 10)])"

declare str_nat.simps [simp del]

definition str_int :: "int \<Rightarrow> string" where
  "str_int i = (if i < 0 then CHR ''-'' # str_nat (nat (- i)) else str_nat (nat i))"

section \<open>Constants and helpers (lines 9 to 24)\<close>

definition DEFAULT_RAMP :: string where
  "DEFAULT_RAMP = '' .,:;i1tfLCG08@''"

definition ALT_RAMP :: string where
  "ALT_RAMP = '' .:-=+*#%@''"

definition clamp :: "real \<Rightarrow> real \<Rightarrow> real \<Rightarrow> real" where
  "clamp n lo hi = (if n < lo then lo else if n > hi then hi else n)"

definition rgb_to_luma :: "int \<Rightarrow> int \<Rightarrow> int \<Rightarrow> real" where
  "rgb_to_luma r g b =
     0.2126 * real_of_int r + 0.7152 * real_of_int g + 0.0722 * real_of_int b"

definition ansi_fg :: "int \<Rightarrow> int \<Rightarrow> int \<Rightarrow> string" where
  "ansi_fg r g b =
     CHR 0x1B # ''[38;2;'' @ str_int r @ '';'' @ str_int g @ '';'' @ str_int b @ ''m''"

definition RESET :: string where
  "RESET = CHR 0x1B # ''[0m''"

section \<open>The dimension formula (lines 41 and 42)\<close>

text \<open>
  \<open>height = max(1, int((orig_h / orig_w) * width * aspect))\<close>, in double precision and
  from left to right: the quotient of the two ints, its product with \<open>width\<close> converted
  to a float, the product with \<open>aspect\<close>. \<open>height_product\<close> is the float that \<open>int\<close>
  receives. The division raises for an image of width zero, \<open>int\<close> raises for an infinity
  or NaN.
\<close>

definition height_product :: "int \<Rightarrow> int \<Rightarrow> int \<Rightarrow> f64 \<Rightarrow> pyerr + f64" where
  "height_product orig_w orig_h width aspect =
     (case int_truediv orig_h orig_w of
        Inl e \<Rightarrow> Inl e
      | Inr q \<Rightarrow>
          (case float_of_int width of
             Inl e \<Rightarrow> Inl e
           | Inr w \<Rightarrow> Inr (fmul (fmul q w) aspect)))"

definition target_height :: "int \<Rightarrow> int \<Rightarrow> int \<Rightarrow> f64 \<Rightarrow> pyerr + int" where
  "target_height orig_w orig_h width aspect =
     (case height_product orig_w orig_h width aspect of
        Inl e \<Rightarrow> Inl e
      | Inr p \<Rightarrow>
          (case int_of_float p of Inl e \<Rightarrow> Inl e | Inr h \<Rightarrow> Inr (max 1 h)))"


text \<open>
  The dimension formula as the specification words it: the same product, rounded to the
  nearest integer in place of truncated.
\<close>

definition spec_target_height :: "int \<Rightarrow> int \<Rightarrow> int \<Rightarrow> f64 \<Rightarrow> pyerr + int" where
  "spec_target_height sourceWidth sourceHeight width aspect =
     (case height_product sourceWidth sourceHeight width aspect of
        Inl e \<Rightarrow> Inl e
      | Inr p \<Rightarrow>
          (case round_float p of Inl e \<Rightarrow> Inl e | Inr h \<Rightarrow> Inr (max 1 h)))"

section \<open>Tone mapping of one pixel in exact arithmetic (lines 49 and 58 to 66)\<close>

text \<open>
  The tone mapping with floats as reals. The bounds and the order that the theorems on
  this model state are kept by rounding; the values themselves are those of the double
  precision model of the next section.
\<close>

type_synonym pixel = "int \<times> int \<times> int"

definition inv_255 :: real where
  "inv_255 = 1.0 / 255.0"

text \<open>Line 58: the luma of the pixel scaled to the unit interval.\<close>

definition pixel_lum0 :: "pixel \<Rightarrow> real" where
  "pixel_lum0 p = (case p of (r, g, b) \<Rightarrow> rgb_to_luma r g b * inv_255)"

text \<open>
  Lines 63 to 65: contrast around the midpoint, then brightness, then the first clamp.
  The result is the value that line 66 raises to the power \<open>gamma\<close>.
\<close>

definition gamma_base :: "real \<Rightarrow> real \<Rightarrow> real \<Rightarrow> real" where
  "gamma_base lum brightness contrast =
     (let lum1 = ((lum - 0.5) * contrast) + 0.5;
          lum2 = lum1 * brightness
      in clamp lum2 0.0 1.0)"

text \<open>
  Line 66: \<open>clamp(lum ** gamma, 0.0, 1.0)\<close>. The comparison \<open>n < lo\<close> inside \<open>clamp\<close>
  raises a TypeError when the power is a complex number.
\<close>

definition clamp_pow :: "pow_value \<Rightarrow> real \<Rightarrow> real \<Rightarrow> pyerr + real" where
  "clamp_pow v lo hi =
     (case v of PowFloat n \<Rightarrow> Inr (clamp n lo hi) | PowComplex \<Rightarrow> Inl TypeError)"

definition tone_map :: "real \<Rightarrow> real \<Rightarrow> real \<Rightarrow> real \<Rightarrow> pyerr + real" where
  "tone_map lum brightness contrast gamma =
     (case py_pow (gamma_base lum brightness contrast) gamma of
        Inl e \<Rightarrow> Inl e
      | Inr v \<Rightarrow> clamp_pow v 0.0 1.0)"

definition pixel_tone :: "pixel \<Rightarrow> real \<Rightarrow> real \<Rightarrow> real \<Rightarrow> pyerr + real" where
  "pixel_tone p brightness contrast gamma = tone_map (pixel_lum0 p) brightness contrast gamma"

section \<open>Tone mapping in double precision (lines 14 to 19, 49 and 58 to 66)\<close>

text \<open>
  The same lines with every operation rounded as the interpreter rounds it. The channel
  values are converted to floats as \<open>float * int\<close> converts them.
\<close>

definition clamp_f64 :: "f64 \<Rightarrow> f64 \<Rightarrow> f64 \<Rightarrow> f64" where
  "clamp_f64 n lo hi = (if flt n lo then lo else if flt hi n then hi else n)"

definition rgb_to_luma_f64 :: "int \<Rightarrow> int \<Rightarrow> int \<Rightarrow> pyerr + f64" where
  "rgb_to_luma_f64 r g b =
     (case float_of_int r of
        Inl e \<Rightarrow> Inl e
      | Inr fr \<Rightarrow>
          (case float_of_int g of
             Inl e \<Rightarrow> Inl e
           | Inr fg \<Rightarrow>
               (case float_of_int b of
                  Inl e \<Rightarrow> Inl e
                | Inr fb \<Rightarrow>
                    Inr (fadd (fadd (fmul (rnd 0.2126) fr) (fmul (rnd 0.7152) fg))
                              (fmul (rnd 0.0722) fb)))))"

text \<open>Line 49: \<open>inv_255 = 1.0 / 255.0\<close>, the quotient rounded to a double.\<close>

definition inv_255_f64 :: f64 where
  "inv_255_f64 = rnd (1 / 255)"

definition pixel_lum0_f64 :: "pixel \<Rightarrow> pyerr + f64" where
  "pixel_lum0_f64 p =
     (case p of (r, g, b) \<Rightarrow>
        (case rgb_to_luma_f64 r g b of
           Inl e \<Rightarrow> Inl e
         | Inr luma \<Rightarrow> Inr (fmul luma inv_255_f64)))"

definition gamma_base_f64 :: "f64 \<Rightarrow> f64 \<Rightarrow> f64 \<Rightarrow> f64" where
  "gamma_base_f64 lum brightness contrast =
     (let lum1 = fadd (fmul (fsub lum (Fin 0.5)) contrast) (Fin 0.5);
          lum2 = fmul lum1 brightness
      in clamp_f64 lum2 (Fin 0.0) (Fin 1.0))"

text \<open>
  \<open>x ** y\<close> on two floats, in the order of the cases of the interpreter: an exponent of
  zero, a NaN, an infinite exponent, an infinite base, a base of zero (a negative exponent
  raises), a negative base (a complex value unless the exponent is a whole number), a base
  of one, and at last the \<open>pow\<close> of the C library, whose infinite result raises an
  OverflowError. That library function is not part of the repository: it is the parameter
  \<open>libm_pow\<close>, applied only to a positive finite base other than one and a finite exponent
  other than zero.
\<close>

datatype pow_result = PowDouble f64 | PowComplexValue

definition is_odd_integer :: "real \<Rightarrow> bool" where
  "is_odd_integer y = (y = real_of_int \<lfloor>y\<rfloor> \<and> odd \<lfloor>y\<rfloor>)"

definition pow_finite :: "(real \<Rightarrow> real \<Rightarrow> f64) \<Rightarrow> real \<Rightarrow> real \<Rightarrow> pyerr + pow_result" where
  "pow_finite libm_pow x y =
     (if x = 0 then (if y < 0 then Inl ZeroDivisionError else Inr (PowDouble (Fin 0)))
      else if x < 0 \<and> y \<noteq> real_of_int \<lfloor>y\<rfloor> then Inr PowComplexValue
      else let negate_result = (x < 0 \<and> is_odd_integer y) in
           if \<bar>x\<bar> = 1 then Inr (PowDouble (Fin (if negate_result then - 1 else 1)))
           else (case libm_pow \<bar>x\<bar> y of
                   Fin v \<Rightarrow> Inr (PowDouble (Fin (if negate_result then - v else v)))
                 | NaN \<Rightarrow> Inr (PowDouble NaN)
                 | PInf \<Rightarrow> Inl OverflowError
                 | NInf \<Rightarrow> Inl OverflowError))"

definition py_pow_f64 ::
  "(real \<Rightarrow> real \<Rightarrow> f64) \<Rightarrow> f64 \<Rightarrow> f64 \<Rightarrow> pyerr + pow_result" where
  "py_pow_f64 libm_pow iv iw =
     (if iw = Fin 0 then Inr (PowDouble (Fin 1))
      else if iv = NaN then Inr (PowDouble NaN)
      else (case iw of
              NaN \<Rightarrow> Inr (PowDouble (if iv = Fin 1 then Fin 1 else NaN))
            | PInf \<Rightarrow>
                Inr (PowDouble (if fabs iv = Fin 1 then Fin 1
                                else if flt (Fin 1) (fabs iv) then PInf else Fin 0))
            | NInf \<Rightarrow>
                Inr (PowDouble (if fabs iv = Fin 1 then Fin 1
                                else if flt (Fin 1) (fabs iv) then Fin 0 else PInf))
            | Fin y \<Rightarrow>
                (case iv of
                   Fin x \<Rightarrow> pow_finite libm_pow x y
                 | PInf \<Rightarrow> Inr (PowDouble (if 0 < y then PInf else Fin 0))
                 | NInf \<Rightarrow>
                     Inr (PowDouble (if 0 < y then (if is_odd_integer y then NInf else PInf)
                                     else Fin 0))
                 | NaN \<Rightarrow> Inr (PowDouble NaN))))"

definition clamp_pow_f64 :: "pow_result \<Rightarrow> f64 \<Rightarrow> f64 \<Rightarrow> pyerr + f64" where
  "clamp_pow_f64 v lo hi =
     (case v of PowDouble n \<Rightarrow> Inr (clamp_f64 n lo hi) | PowComplexValue \<Rightarrow> Inl TypeError)"

definition tone_map_f64 ::
  "(real \<Rightarrow> real \<Rightarrow> f64) \<Rightarrow> f64 \<Rightarrow> f64 \<Rightarrow> f64 \<Rightarrow> f64 \<Rightarrow> pyerr + f64" where
  "tone_map_f64 libm_pow lum brightness contrast gamma =
     (case py_pow_f64 libm_pow (gamma_base_f64 lum brightness contrast) gamma of
        Inl e \<Rightarrow> Inl e
      | Inr v \<Rightarrow> clamp_pow_f64 v (Fin 0.0) (Fin 1.0))"

definition pixel_tone_f64 ::
  "(real \<Rightarrow> real \<Rightarrow> f64) \<Rightarrow> pixel \<Rightarrow> f64 \<Rightarrow> f64 \<Rightarrow> f64 \<Rightarrow> pyerr + f64" where
  "pixel_tone_f64 libm_pow p brightness contrast gamma =
     (case pixel_lum0_f64 p of
        Inl e \<Rightarrow> Inl e
      | Inr lum \<Rightarrow> tone_map_f64 libm_pow lum brightness contrast gamma)"

text \<open>
  The five numbered steps of the specification, in its words and in double precision: the
  luma divided by 255, contrast around the midpoint, brightness, a clamp to the unit
  interval, the power \<open>gamma\<close> of a luminance of the unit interval, a second clamp.
\<close>

fun div_by_255 :: "f64 \<Rightarrow> f64" where
  "div_by_255 (Fin a) = rnd (a / 255)"
| "div_by_255 PInf = PInf"
| "div_by_255 NInf = NInf"
| "div_by_255 NaN = NaN"

declare div_by_255.simps [simp del]

fun spec_clamp_f64 :: "f64 \<Rightarrow> f64" where
  "spec_clamp_f64 (Fin a) = Fin (max 0 (min 1 a))"
| "spec_clamp_f64 PInf = Fin 1"
| "spec_clamp_f64 NInf = Fin 0"
| "spec_clamp_f64 NaN = NaN"

definition spec_power :: "(real \<Rightarrow> real \<Rightarrow> f64) \<Rightarrow> f64 \<Rightarrow> f64 \<Rightarrow> pyerr + f64" where
  "spec_power libm_pow lum3 gamma =
     (if gamma = Fin 0 \<or> lum3 = Fin 1 then Inr (Fin 1)
      else (case lum3 of
              Fin a \<Rightarrow>
                (case gamma of
                   Fin g \<Rightarrow>
                     (if a = 0 then (if g < 0 then Inl ZeroDivisionError else Inr (Fin 0))
                      else (case libm_pow a g of
                              Fin v \<Rightarrow> Inr (Fin v)
                            | NaN \<Rightarrow> Inr NaN
                            | PInf \<Rightarrow> Inl OverflowError
                            | NInf \<Rightarrow> Inl OverflowError))
                 | PInf \<Rightarrow> Inr (Fin 0)
                 | NInf \<Rightarrow> Inr PInf
                 | NaN \<Rightarrow> Inr NaN)
            | PInf \<Rightarrow> Inr NaN
            | NInf \<Rightarrow> Inr NaN
            | NaN \<Rightarrow> Inr NaN))"

definition spec_steps ::
  "(real \<Rightarrow> real \<Rightarrow> f64) \<Rightarrow> f64 \<Rightarrow> f64 \<Rightarrow> f64 \<Rightarrow> f64 \<Rightarrow> pyerr + f64" where
  "spec_steps libm_pow lum0 brightness contrast gamma =
     (let lum1 = fadd (fmul (fsub lum0 (Fin 0.5)) contrast) (Fin 0.5);
          lum2 = fmul lum1 brightness;
          lum3 = spec_clamp_f64 lum2
      in case spec_power libm_pow lum3 gamma of
           Inl e \<Rightarrow> Inl e
         | Inr lum4 \<Rightarrow> Inr (spec_clamp_f64 lum4))"

definition spec_lum0 :: "int \<Rightarrow> int \<Rightarrow> int \<Rightarrow> pyerr + f64" where
  "spec_lum0 r g b =
     (case rgb_to_luma_f64 r g b of Inl e \<Rightarrow> Inl e | Inr L \<Rightarrow> Inr (div_by_255 L))"

definition spec_tone_f64 ::
  "(real \<Rightarrow> real \<Rightarrow> f64) \<Rightarrow> int \<Rightarrow> int \<Rightarrow> int \<Rightarrow> f64 \<Rightarrow> f64 \<Rightarrow> f64 \<Rightarrow> pyerr + f64" where
  "spec_tone_f64 libm_pow r g b brightness contrast gamma =
     (case spec_lum0 r g b of
        Inl e \<Rightarrow> Inl e
      | Inr lum0 \<Rightarrow> spec_steps libm_pow lum0 brightness contrast gamma)"

text \<open>The same five steps with the first one as line 58 has it: times the reciprocal.\<close>

definition spec_tone_reciprocal ::
  "(real \<Rightarrow> real \<Rightarrow> f64) \<Rightarrow> int \<Rightarrow> int \<Rightarrow> int \<Rightarrow> f64 \<Rightarrow> f64 \<Rightarrow> f64 \<Rightarrow> pyerr + f64" where
  "spec_tone_reciprocal libm_pow r g b brightness contrast gamma =
     (case rgb_to_luma_f64 r g b of
        Inl e \<Rightarrow> Inl e
      | Inr L \<Rightarrow> spec_steps libm_pow (fmul L (rnd (1 / 255))) brightness contrast gamma)"

text \<open>A correctly rounded power, as one instance of the library function.\<close>

definition rounded_powr :: "real \<Rightarrow> real \<Rightarrow> f64" where
  "rounded_powr x y = rnd (x powr y)"

section \<open>Glyph quantisation (lines 48, 69 and 70)\<close>

definition glyph_index :: "real \<Rightarrow> int \<Rightarrow> int" where
  "glyph_index lum ramp_len = py_int (lum * real_of_int (ramp_len - 1))"

definition quantize :: "string \<Rightarrow> real \<Rightarrow> pyerr + char" where
  "quantize ramp lum = py_getitem ramp (glyph_index lum (int (length ramp)))"

definition pixel_glyph :: "string \<Rightarrow> pixel \<Rightarrow> real \<Rightarrow> real \<Rightarrow> real \<Rightarrow> pyerr + char" where
  "pixel_glyph ramp p brightness contrast gamma =
     (case pixel_tone p brightness contrast gamma of
        Inl e \<Rightarrow> Inl e
      | Inr lum \<Rightarrow> quantize ramp lum)"

section \<open>Rendering (lines 51 to 81)\<close>

text \<open>
  The resampled image: its size and the pixel at each column \<open>x\<close> and row \<open>y\<close>.
  Decoding, \<open>convert\<close> and \<open>resize\<close> belong to the imaging library; \<open>resize\<close> is a
  parameter of \<open>image_to_ascii\<close> below.
\<close>

record image =
  img_size :: "int \<times> int"
  getpixel :: "nat \<times> nat \<Rightarrow> pixel"

text \<open>Lines 55 to 75: the piece of the line that one pixel contributes.\<close>

definition render_pixel ::
  "string \<Rightarrow> bool \<Rightarrow> real \<Rightarrow> real \<Rightarrow> real \<Rightarrow> pixel \<Rightarrow> pyerr + string" where
  "render_pixel ramp color brightness contrast gamma p =
     (case pixel_glyph ramp p brightness contrast gamma of
        Inl e \<Rightarrow> Inl e
      | Inr ch \<Rightarrow>
          (case p of (r, g, b) \<Rightarrow> Inr (if color then ansi_fg r g b @ [ch] else [ch])))"

text \<open>
  The inner loop over \<open>x\<close>, with \<open>line_parts\<close> as accumulator; the first pixel that
  raises ends the run.
\<close>

fun render_cols ::
  "image \<Rightarrow> string \<Rightarrow> bool \<Rightarrow> real \<Rightarrow> real \<Rightarrow> real \<Rightarrow> nat \<Rightarrow> nat list \<Rightarrow> string list
     \<Rightarrow> pyerr + string list" where
  "render_cols img ramp color brightness contrast gamma y [] line_parts = Inr line_parts"
| "render_cols img ramp color brightness contrast gamma y (x # xs) line_parts =
     (case render_pixel ramp color brightness contrast gamma (getpixel img (x, y)) of
        Inl e \<Rightarrow> Inl e
      | Inr part \<Rightarrow>
          render_cols img ramp color brightness contrast gamma y xs (line_parts @ [part]))"

text \<open>Lines 53 to 79: one row, with the reset sequence appended in colour mode.\<close>

definition render_line ::
  "image \<Rightarrow> int \<Rightarrow> string \<Rightarrow> bool \<Rightarrow> real \<Rightarrow> real \<Rightarrow> real \<Rightarrow> nat \<Rightarrow> pyerr + string" where
  "render_line img width ramp color brightness contrast gamma y =
     (case render_cols img ramp color brightness contrast gamma y [0..<nat width] [] of
        Inl e \<Rightarrow> Inl e
      | Inr line_parts \<Rightarrow>
          Inr (concat (if color then line_parts @ [RESET] else line_parts)))"

text \<open>The outer loop over \<open>y\<close>, with \<open>lines\<close> as accumulator.\<close>

fun render_rows ::
  "image \<Rightarrow> int \<Rightarrow> string \<Rightarrow> bool \<Rightarrow> real \<Rightarrow> real \<Rightarrow> real \<Rightarrow> nat list \<Rightarrow> string list
     \<Rightarrow> pyerr + string list" where
  "render_rows img width ramp color brightness contrast gamma [] lines = Inr lines"
| "render_rows img width ramp color brightness contrast gamma (y # ys) lines =
     (case render_line img width ramp color brightness contrast gamma y of
        Inl e \<Rightarrow> Inl e
      | Inr line \<Rightarrow>
          render_rows img width ramp color brightness contrast gamma ys (lines @ [line]))"

definition newline :: string where
  "newline = [CHR 0x0A]"

text \<open>Lines 47 to 81: the text block of a resampled image of the given width and height.\<close>

definition render_grid ::
  "image \<Rightarrow> int \<Rightarrow> int \<Rightarrow> string \<Rightarrow> bool \<Rightarrow> real \<Rightarrow> real \<Rightarrow> real \<Rightarrow> pyerr + string" where
  "render_grid img width height ramp color brightness contrast gamma =
     (case render_rows img width ramp color brightness contrast gamma [0..<nat height] [] of
        Inl e \<Rightarrow> Inl e
      | Inr lines \<Rightarrow> Inr (str_join newline lines))"

definition image_to_ascii ::
  "(image \<Rightarrow> int \<times> int \<Rightarrow> image) \<Rightarrow> image \<Rightarrow> int \<Rightarrow> string \<Rightarrow> bool
     \<Rightarrow> real \<Rightarrow> real \<Rightarrow> real \<Rightarrow> f64 \<Rightarrow> pyerr + string" where
  "image_to_ascii resize img width ramp color brightness contrast gamma aspect =
     (case img_size img of (orig_w, orig_h) \<Rightarrow>
        (case target_height orig_w orig_h width aspect of
           Inl e \<Rightarrow> Inl e
         | Inr height \<Rightarrow>
             render_grid (resize img (width, height)) width height
               ramp color brightness contrast gamma))"

section \<open>Ramp selection in main (lines 87, 88 and 99 to 101)\<close>

text \<open>
  The two fields of the parsed arguments that decide the ramp, \<open>args.ramp\<close> and
  \<open>args.custom_ramp\<close>. \<open>parse_ramp_args\<close> gives
  them as argparse does: the value of a flag when it is on the command line, its
  declared default otherwise.
\<close>

record ramp_args =
  args_ramp :: string
  args_custom_ramp :: string

definition parse_ramp_args :: "string option \<Rightarrow> string option \<Rightarrow> ramp_args" where
  "parse_ramp_args ramp_flag custom_flag =
     \<lparr> args_ramp = (case ramp_flag of None \<Rightarrow> ''alt'' | Some v \<Rightarrow> v),
       args_custom_ramp = (case custom_flag of None \<Rightarrow> [] | Some v \<Rightarrow> v) \<rparr>"

definition select_ramp :: "ramp_args \<Rightarrow> string" where
  "select_ramp args =
     (let chosen = (if args_ramp args = ''default'' then DEFAULT_RAMP else ALT_RAMP)
      in if args_custom_ramp args \<noteq> [] then args_custom_ramp args else chosen)"

section \<open>Counting a sequence inside a line\<close>

text \<open>
  The number of positions of a text at which a given sequence starts; it states that the
  reset sequence occurs once in a line.
\<close>

fun occurrences :: "'a list \<Rightarrow> 'a list \<Rightarrow> nat" where
  "occurrences pat [] = 0"
| "occurrences pat (x # xs) =
     (if take (length pat) (x # xs) = pat then 1 else 0) + occurrences pat xs"

section \<open>Auxiliary facts\<close>

text \<open>Rounding to a double: how a concrete value is computed, and the sign it keeps.\<close>

lemma floor_log2_eq:
  assumes "2 powi k \<le> x" and "x < 2 powi (k + 1)"
  shows "\<lfloor>log 2 x\<rfloor> = k"
proof -
  have pos: "0 < x" using assms(1) by (smt (verit) zero_less_power_int)
  have "(2::real) powr real_of_int k = 2 powi k"
    and "(2::real) powr real_of_int (k + 1) = 2 powi (k + 1)"
    by (rule powr_real_of_int'; simp)+
  with assms have "2 powr real_of_int k \<le> x \<and> x < 2 powr real_of_int (k + 1)"
    by simp
  with pos show ?thesis by (subst floor_log_eq_powr_iff) simp_all
qed

lemma fl_eval:
  assumes "2 powi k \<le> \<bar>x\<bar>" and "\<bar>x\<bar> < 2 powi (k + 1)" and "- 1022 \<le> k"
  shows "fl x = of_int (rne (x / 2 powi (k - 52))) * 2 powi (k - 52)"
proof -
  have "\<lfloor>log 2 \<bar>x\<bar>\<rfloor> = k" using assms(1,2) by (rule floor_log2_eq)
  with assms(3) have "ulp_exp x = k - 52" by (simp add: ulp_exp_def)
  moreover have "x \<noteq> 0" using assms(1) by (smt (verit) zero_less_power_int)
  ultimately show ?thesis by (simp add: fl_def)
qed

lemma rne_nonneg: "0 \<le> x \<Longrightarrow> 0 \<le> rne x"
  by (auto simp add: rne_def Let_def)

lemma fl_nonneg: "0 \<le> x \<Longrightarrow> 0 \<le> fl x"
  by (simp add: fl_def rne_nonneg)

lemma rnd_nonneg:
  assumes "0 \<le> x"
  shows "rnd x = PInf \<or> (\<exists>y. rnd x = Fin y \<and> 0 \<le> y)"
  using fl_nonneg [OF assms] by (auto simp add: rnd_def Let_def)

lemma fl_055: "fl 0.55 = 2476979795053773/4503599627370496"
  by (subst fl_eval [of "- 1"]) (simp_all add: rne_def Let_def)

lemma width_80: "float_of_int 80 = Inr (Fin 80)"
proof -
  have "fl (real_of_int 80) = 80"
    by (subst fl_eval [of 6]) (simp_all add: rne_def Let_def)
  then show ?thesis unfolding float_of_int_def Let_def by simp
qed

lemma width_100: "float_of_int 100 = Inr (Fin 100)"
proof -
  have "fl (real_of_int 100) = 100"
    by (subst fl_eval [of 6]) (simp_all add: rne_def Let_def)
  then show ?thesis unfolding float_of_int_def Let_def by simp
qed

lemma fl_055_normal: "fl (11/20) = 2476979795053773/4503599627370496"
  using fl_055 by simp

lemma quot_100_50: "int_truediv 50 100 = Inr (Fin (1/2))"
proof -
  have "fl (real_of_int 50 / real_of_int 100) = 1/2"
    by (subst fl_eval [of "- 1"]) (simp_all add: rne_def Let_def)
  then show ?thesis unfolding int_truediv_def Let_def by simp
qed

lemma prod1_100_50: "fmul (Fin (1/2)) (Fin 80) = Fin (40)"
proof -
  have "fl (1/2 * 80) = 40"
    by (subst fl_eval [of 5]) (simp_all add: rne_def Let_def)
  then show ?thesis unfolding fmul.simps rnd_def Let_def by simp
qed

lemma prod2_100_50: "fmul (Fin (40)) (Fin (2476979795053773/4503599627370496)) = Fin (22)"
proof -
  have "fl (40 * (2476979795053773/4503599627370496)) = 22"
    by (subst fl_eval [of 4]) (simp_all add: rne_def Let_def)
  then show ?thesis unfolding fmul.simps rnd_def Let_def by simp
qed

lemma product_100_50:
  "height_product 100 50 80 (Fin (2476979795053773/4503599627370496)) = Inr (Fin (22))"
  by (simp add: height_product_def quot_100_50 width_80 prod1_100_50 prod2_100_50)

lemma quot_100_70: "int_truediv 70 100 = Inr (Fin (3152519739159347/4503599627370496))"
proof -
  have "fl (real_of_int 70 / real_of_int 100) = 3152519739159347/4503599627370496"
    by (subst fl_eval [of "- 1"]) (simp_all add: rne_def Let_def)
  then show ?thesis unfolding int_truediv_def Let_def by simp
qed

lemma prod1_100_70: "fmul (Fin (3152519739159347/4503599627370496)) (Fin 80) = Fin (56)"
proof -
  have "fl (3152519739159347/4503599627370496 * 80) = 56"
    by (subst fl_eval [of 5]) (simp_all add: rne_def Let_def)
  then show ?thesis unfolding fmul.simps rnd_def Let_def by simp
qed

lemma prod2_100_70: "fmul (Fin (56)) (Fin (2476979795053773/4503599627370496)) = Fin (4334714641344103/140737488355328)"
proof -
  have "fl (56 * (2476979795053773/4503599627370496)) = 4334714641344103/140737488355328"
    by (subst fl_eval [of 4]) (simp_all add: rne_def Let_def)
  then show ?thesis unfolding fmul.simps rnd_def Let_def by simp
qed

lemma product_100_70:
  "height_product 100 70 80 (Fin (2476979795053773/4503599627370496)) = Inr (Fin (4334714641344103/140737488355328))"
  by (simp add: height_product_def quot_100_70 width_80 prod1_100_70 prod2_100_70)

lemma quot_55_29: "int_truediv 29 55 = Inr (Fin (4749250516136159/9007199254740992))"
proof -
  have "fl (real_of_int 29 / real_of_int 55) = 4749250516136159/9007199254740992"
    by (subst fl_eval [of "- 1"]) (simp_all add: rne_def Let_def)
  then show ?thesis unfolding int_truediv_def Let_def by simp
qed

lemma prod1_55_29: "fmul (Fin (4749250516136159/9007199254740992)) (Fin 100) = Fin (1855175982865687/35184372088832)"
proof -
  have "fl (4749250516136159/9007199254740992 * 100) = 1855175982865687/35184372088832"
    by (subst fl_eval [of 5]) (simp_all add: rne_def Let_def)
  then show ?thesis unfolding fmul.simps rnd_def Let_def by simp
qed

lemma prod2_55_29: "fmul (Fin (1855175982865687/35184372088832)) (Fin (2476979795053773/4503599627370496)) = Fin (8162774324609023/281474976710656)"
proof -
  have "fl (1855175982865687/35184372088832 * (2476979795053773/4503599627370496)) = 8162774324609023/281474976710656"
    by (subst fl_eval [of 4]) (simp_all add: rne_def Let_def)
  then show ?thesis unfolding fmul.simps rnd_def Let_def by simp
qed

lemma product_55_29:
  "height_product 55 29 100 (Fin (2476979795053773/4503599627370496)) = Inr (Fin (8162774324609023/281474976710656))"
  by (simp add: height_product_def quot_55_29 width_100 prod1_55_29 prod2_55_29)

lemma height_product_nonneg:
  assumes "0 < orig_w" and "0 < orig_h" and "0 < width" and "0 < a"
    and "height_product orig_w orig_h width (Fin a) = Inr (Fin p)"
  shows "0 \<le> p"
proof -
  from assms(5) obtain q w where
    q: "int_truediv orig_h orig_w = Inr q" and w: "float_of_int width = Inr w"
    and p: "fmul (fmul q w) (Fin a) = Fin p"
    by (auto simp add: height_product_def split: sum.splits)
  from q assms(1,2) obtain x where x: "q = Fin x" "0 \<le> x"
    by (auto simp add: int_truediv_def Let_def fl_nonneg split: if_splits)
  from w assms(3) obtain y where y: "w = Fin y" "0 \<le> y"
    by (auto simp add: float_of_int_def Let_def fl_nonneg split: if_splits)
  from x y have "0 \<le> x * y" by simp
  from rnd_nonneg [OF this] have "fmul q w = PInf \<or> (\<exists>z. fmul q w = Fin z \<and> 0 \<le> z)"
    by (simp add: x y fmul.simps)
  then show ?thesis
  proof
    assume "fmul q w = PInf"
    with p assms(4) show ?thesis by (simp add: fmul.simps)
  next
    assume "\<exists>z. fmul q w = Fin z \<and> 0 \<le> z"
    then obtain z where z: "fmul q w = Fin z" "0 \<le> z" by blast
    with assms(4) have "0 \<le> z * a" by simp
    from rnd_nonneg [OF this] p z show ?thesis by (auto simp add: fmul.simps)
  qed
qed


lemma py_int_nonneg: "0 \<le> x \<Longrightarrow> py_int x = \<lfloor>x\<rfloor>"
  by (simp add: py_int_def)

lemma clamp_bounds: "lo \<le> hi \<Longrightarrow> lo \<le> clamp n lo hi \<and> clamp n lo hi \<le> hi"
  by (simp add: clamp_def)


lemma gamma_base_bounds:
  "0 \<le> gamma_base lum brightness contrast \<and> gamma_base lum brightness contrast \<le> 1"
  by (simp add: gamma_base_def Let_def clamp_def)






lemma black_pixel_tone: "pixel_tone (0, 0, 0) 1.05 1.25 0.85 = Inr 0"
  by (simp add: pixel_tone_def tone_map_def pixel_lum0_def rgb_to_luma_def gamma_base_def
        Let_def py_pow_def clamp_pow_def clamp_def)

lemma tone_map_at_ends:
  "tone_map 0 1.05 1.25 0.85 = Inr 0 \<and> tone_map 1 1.05 1.25 0.85 = Inr 1"
  by (simp add: tone_map_def gamma_base_def Let_def py_pow_def clamp_pow_def clamp_def)



text \<open>The double precision pipeline: the clamp, the power of a clamped base.\<close>

lemma clamp_f64_spec: "clamp_f64 n (Fin 0) (Fin 1) = spec_clamp_f64 n"
  by (cases n) (auto simp add: clamp_f64_def)

lemma spec_clamp_unit:
  "spec_clamp_f64 n = NaN \<or> (\<exists>a. spec_clamp_f64 n = Fin a \<and> 0 \<le> a \<and> a \<le> 1)"
  by (cases n) auto

lemma py_pow_unit:
  assumes "x = NaN \<or> (\<exists>a. x = Fin a \<and> 0 \<le> a \<and> a \<le> 1)"
  shows "py_pow_f64 libm_pow x y =
           (case spec_power libm_pow x y of Inl e \<Rightarrow> Inl e | Inr v \<Rightarrow> Inr (PowDouble v))"
  using assms
  by (cases y; cases x)
     (auto simp add: py_pow_f64_def spec_power_def pow_finite_def Let_def split: f64.splits)

text \<open>The grey pixel (204, 204, 204), operation by operation.\<close>

lemma coeff_r: "rnd (1063/5000) = Fin (1914930561557935/9007199254740992)"
proof -
  have "fl (1063/5000) = (1914930561557935/9007199254740992)"
    by (subst fl_eval [of "- 3"]) (simp_all add: rne_def Let_def)
  then show ?thesis unfolding rnd_def Let_def by simp
qed

lemma coeff_g: "rnd (447/625) = Fin (6441948906990757/9007199254740992)"
proof -
  have "fl (447/625) = (6441948906990757/9007199254740992)"
    by (subst fl_eval [of "- 1"]) (simp_all add: rne_def Let_def)
  then show ?thesis unfolding rnd_def Let_def by simp
qed

lemma coeff_b: "rnd (361/5000) = Fin (5202558289538397/72057594037927936)"
proof -
  have "fl (361/5000) = (5202558289538397/72057594037927936)"
    by (subst fl_eval [of "- 4"]) (simp_all add: rne_def Let_def)
  then show ?thesis unfolding rnd_def Let_def by simp
qed

lemma inv_255_value: "rnd (1/255) = Fin (282578800148737/72057594037927936)"
proof -
  have "fl (1/255) = (282578800148737/72057594037927936)"
    by (subst fl_eval [of "- 8"]) (simp_all add: rne_def Let_def)
  then show ?thesis unfolding rnd_def Let_def by simp
qed

lemma float_204: "float_of_int 204 = Inr (Fin 204)"
proof -
  have "fl (real_of_int 204) = 204"
    by (subst fl_eval [of 7]) (simp_all add: rne_def Let_def)
  then show ?thesis unfolding float_of_int_def Let_def by simp
qed

lemma grey_r: "fmul (Fin (1914930561557935/9007199254740992)) (Fin 204) = Fin (3051920582482959/70368744177664)"
proof -
  have "fl ((1914930561557935/9007199254740992) * 204) = (3051920582482959/70368744177664)"
    by (subst fl_eval [of 5]) (simp_all add: rne_def Let_def)
  then show ?thesis unfolding fmul.simps rnd_def Let_def by simp
qed

lemma grey_g: "fmul (Fin (6441948906990757/9007199254740992)) (Fin 204) = Fin (5133428035258259/35184372088832)"
proof -
  have "fl ((6441948906990757/9007199254740992) * 204) = (5133428035258259/35184372088832)"
    by (subst fl_eval [of 7]) (simp_all add: rne_def Let_def)
  then show ?thesis unfolding fmul.simps rnd_def Let_def by simp
qed

lemma grey_b: "fmul (Fin (5202558289538397/72057594037927936)) (Fin 204) = Fin (2072894318487955/140737488355328)"
proof -
  have "fl ((5202558289538397/72057594037927936) * 204) = (2072894318487955/140737488355328)"
    by (subst fl_eval [of 3]) (simp_all add: rne_def Let_def)
  then show ?thesis unfolding fmul.simps rnd_def Let_def by simp
qed

lemma grey_rg: "fadd (Fin (3051920582482959/70368744177664)) (Fin (5133428035258259/35184372088832)) = Fin (3329694163249869/17592186044416)"
proof -
  have "fl ((3051920582482959/70368744177664) + (5133428035258259/35184372088832)) = (3329694163249869/17592186044416)"
    by (subst fl_eval [of 7]) (simp_all add: rne_def Let_def)
  then show ?thesis unfolding fadd.simps rnd_def Let_def by simp
qed

lemma grey_luma: "fadd (Fin (3329694163249869/17592186044416)) (Fin (2072894318487955/140737488355328)) = Fin (7177611906121727/35184372088832)"
proof -
  have "fl ((3329694163249869/17592186044416) + (2072894318487955/140737488355328)) = (7177611906121727/35184372088832)"
    by (subst fl_eval [of 7]) (simp_all add: rne_def Let_def)
  then show ?thesis unfolding fadd.simps rnd_def Let_def by simp
qed

lemma grey_lum0_code: "fmul (Fin (7177611906121727/35184372088832)) (Fin (282578800148737/72057594037927936)) = Fin (900719925474099/1125899906842624)"
proof -
  have "fl ((7177611906121727/35184372088832) * (282578800148737/72057594037927936)) = (900719925474099/1125899906842624)"
    by (subst fl_eval [of "- 1"]) (simp_all add: rne_def Let_def)
  then show ?thesis unfolding fmul.simps rnd_def Let_def by simp
qed

lemma grey_lum0_spec: "div_by_255 (Fin (7177611906121727/35184372088832)) = Fin (7205759403792793/9007199254740992)"
proof -
  have "fl ((7177611906121727/35184372088832) / 255) = (7205759403792793/9007199254740992)"
    by (subst fl_eval [of "- 1"]) (simp_all add: rne_def Let_def)
  then show ?thesis unfolding div_by_255.simps rnd_def Let_def by simp
qed

lemma grey_code_sub: "fsub (Fin (900719925474099/1125899906842624)) (Fin (1/2)) = Fin (337769972052787/1125899906842624)"
proof -
  have "fl ((900719925474099/1125899906842624) + - (1/2)) = (337769972052787/1125899906842624)"
    by (subst fl_eval [of "- 2"]) (simp_all add: rne_def Let_def)
  then show ?thesis unfolding fsub_def fneg.simps fadd.simps rnd_def Let_def by simp
qed

lemma grey_code_contrast: "fmul (Fin (337769972052787/1125899906842624)) (Fin 1) = Fin (337769972052787/1125899906842624)"
proof -
  have "fl ((337769972052787/1125899906842624) * 1) = (337769972052787/1125899906842624)"
    by (subst fl_eval [of "- 2"]) (simp_all add: rne_def Let_def)
  then show ?thesis unfolding fmul.simps rnd_def Let_def by simp
qed

lemma grey_code_mid: "fadd (Fin (337769972052787/1125899906842624)) (Fin (1/2)) = Fin (900719925474099/1125899906842624)"
proof -
  have "fl ((337769972052787/1125899906842624) + (1/2)) = (900719925474099/1125899906842624)"
    by (subst fl_eval [of "- 1"]) (simp_all add: rne_def Let_def)
  then show ?thesis unfolding fadd.simps rnd_def Let_def by simp
qed

lemma grey_code_brightness: "fmul (Fin (900719925474099/1125899906842624)) (Fin 1) = Fin (900719925474099/1125899906842624)"
proof -
  have "fl ((900719925474099/1125899906842624) * 1) = (900719925474099/1125899906842624)"
    by (subst fl_eval [of "- 1"]) (simp_all add: rne_def Let_def)
  then show ?thesis unfolding fmul.simps rnd_def Let_def by simp
qed

lemma grey_spec_sub: "fsub (Fin (7205759403792793/9007199254740992)) (Fin (1/2)) = Fin (2702159776422297/9007199254740992)"
proof -
  have "fl ((7205759403792793/9007199254740992) + - (1/2)) = (2702159776422297/9007199254740992)"
    by (subst fl_eval [of "- 2"]) (simp_all add: rne_def Let_def)
  then show ?thesis unfolding fsub_def fneg.simps fadd.simps rnd_def Let_def by simp
qed

lemma grey_spec_contrast: "fmul (Fin (2702159776422297/9007199254740992)) (Fin 1) = Fin (2702159776422297/9007199254740992)"
proof -
  have "fl ((2702159776422297/9007199254740992) * 1) = (2702159776422297/9007199254740992)"
    by (subst fl_eval [of "- 2"]) (simp_all add: rne_def Let_def)
  then show ?thesis unfolding fmul.simps rnd_def Let_def by simp
qed

lemma grey_spec_mid: "fadd (Fin (2702159776422297/9007199254740992)) (Fin (1/2)) = Fin (7205759403792793/9007199254740992)"
proof -
  have "fl ((2702159776422297/9007199254740992) + (1/2)) = (7205759403792793/9007199254740992)"
    by (subst fl_eval [of "- 1"]) (simp_all add: rne_def Let_def)
  then show ?thesis unfolding fadd.simps rnd_def Let_def by simp
qed

lemma grey_spec_brightness: "fmul (Fin (7205759403792793/9007199254740992)) (Fin 1) = Fin (7205759403792793/9007199254740992)"
proof -
  have "fl ((7205759403792793/9007199254740992) * 1) = (7205759403792793/9007199254740992)"
    by (subst fl_eval [of "- 1"]) (simp_all add: rne_def Let_def)
  then show ?thesis unfolding fmul.simps rnd_def Let_def by simp
qed
lemma grey_code_exact: "rnd (900719925474099/1125899906842624) = Fin (900719925474099/1125899906842624)"
proof -
  have "fl (900719925474099/1125899906842624) = (900719925474099/1125899906842624)"
    by (subst fl_eval [of "- 1"]) (simp_all add: rne_def Let_def)
  then show ?thesis unfolding rnd_def Let_def by simp
qed

lemma grey_spec_exact: "rnd (7205759403792793/9007199254740992) = Fin (7205759403792793/9007199254740992)"
proof -
  have "fl (7205759403792793/9007199254740992) = (7205759403792793/9007199254740992)"
    by (subst fl_eval [of "- 1"]) (simp_all add: rne_def Let_def)
  then show ?thesis unfolding rnd_def Let_def by simp
qed

lemma grey_luma_value:
  "rgb_to_luma_f64 204 204 204 = Inr (Fin (7177611906121727/35184372088832))"
  by (simp add: rgb_to_luma_f64_def float_204 coeff_r coeff_g coeff_b
        grey_r grey_g grey_b grey_rg grey_luma)

lemma grey_code_lum0: "pixel_lum0_f64 (204, 204, 204) = Inr (Fin (900719925474099/1125899906842624))"
  by (simp add: pixel_lum0_f64_def grey_luma_value inv_255_f64_def inv_255_value grey_lum0_code)

lemma grey_spec_lum0: "spec_lum0 204 204 204 = Inr (Fin (7205759403792793/9007199254740992))"
  by (simp add: spec_lum0_def grey_luma_value grey_lum0_spec)

lemma grey_code_base: "gamma_base_f64 (Fin (900719925474099/1125899906842624)) (Fin 1) (Fin 1) = Fin (900719925474099/1125899906842624)"
  by (simp add: gamma_base_f64_def Let_def clamp_f64_def
        grey_code_sub grey_code_contrast grey_code_mid grey_code_brightness)

lemma grey_spec_base: "gamma_base_f64 (Fin (7205759403792793/9007199254740992)) (Fin 1) (Fin 1) = Fin (7205759403792793/9007199254740992)"
  by (simp add: gamma_base_f64_def Let_def clamp_f64_def
        grey_spec_sub grey_spec_contrast grey_spec_mid grey_spec_brightness)

lemma grey_code_tone:
  "pixel_tone_f64 rounded_powr (204, 204, 204) (Fin 1) (Fin 1) (Fin 1) = Inr (Fin (900719925474099/1125899906842624))"
  by (simp add: pixel_tone_f64_def grey_code_lum0 tone_map_f64_def grey_code_base
        py_pow_f64_def pow_finite_def Let_def rounded_powr_def grey_code_exact
        clamp_pow_f64_def clamp_f64_def)

lemma grey_spec_tone:
  "spec_tone_f64 rounded_powr 204 204 204 (Fin 1) (Fin 1) (Fin 1) = Inr (Fin (7205759403792793/9007199254740992))"
  by (simp add: spec_tone_f64_def grey_spec_lum0 spec_steps_def Let_def
        grey_spec_sub grey_spec_contrast grey_spec_mid grey_spec_brightness
        spec_power_def rounded_powr_def grey_spec_exact)

text \<open>The two loops: what a run that ends without an error has accumulated.\<close>

lemma render_pixel_Inr:
  assumes "render_pixel ramp color brightness contrast gamma p = Inr part"
  shows "\<exists>ch. pixel_glyph ramp p brightness contrast gamma = Inr ch
            \<and> part = (if color then (case p of (r, g, b) \<Rightarrow> ansi_fg r g b) @ [ch] else [ch])"
  using assms by (auto simp add: render_pixel_def split: sum.splits prod.splits)

lemma render_cols_Inr:
  "render_cols img ramp color brightness contrast gamma y xs acc = Inr parts \<Longrightarrow>
   \<exists>ps. parts = acc @ ps \<and> length ps = length xs
      \<and> (\<forall>i<length xs.
            render_pixel ramp color brightness contrast gamma (getpixel img (xs ! i, y))
              = Inr (ps ! i))"
proof (induction xs arbitrary: acc)
  case Nil
  then show ?case by simp
next
  case (Cons x xs)
  from Cons.prems obtain part where
    p: "render_pixel ramp color brightness contrast gamma (getpixel img (x, y)) = Inr part"
    and r: "render_cols img ramp color brightness contrast gamma y xs (acc @ [part]) = Inr parts"
    by (auto split: sum.splits)
  from Cons.IH [OF r] obtain ps where
    ps: "parts = (acc @ [part]) @ ps" "length ps = length xs"
    "\<forall>i<length xs.
        render_pixel ramp color brightness contrast gamma (getpixel img (xs ! i, y))
          = Inr (ps ! i)"
    by blast
  have "\<forall>i<length (x # xs).
        render_pixel ramp color brightness contrast gamma (getpixel img ((x # xs) ! i, y))
          = Inr ((part # ps) ! i)"
  proof (intro allI impI)
    fix i assume "i < length (x # xs)"
    then show "render_pixel ramp color brightness contrast gamma (getpixel img ((x # xs) ! i, y))
          = Inr ((part # ps) ! i)"
      using p ps(3) by (cases i) simp_all
  qed
  with ps(1,2) show ?case
    by (intro exI [of _ "part # ps"]) simp
qed

lemma render_cols_total:
  "(\<forall>x\<in>set xs. \<exists>part.
       render_pixel ramp color brightness contrast gamma (getpixel img (x, y)) = Inr part) \<Longrightarrow>
   \<exists>parts. render_cols img ramp color brightness contrast gamma y xs acc = Inr parts"
  by (induction xs arbitrary: acc) auto

lemma render_rows_Inr:
  "render_rows img width ramp color brightness contrast gamma ys acc = Inr lines \<Longrightarrow>
   \<exists>ls. lines = acc @ ls \<and> length ls = length ys
      \<and> (\<forall>i<length ys.
            render_line img width ramp color brightness contrast gamma (ys ! i) = Inr (ls ! i))"
proof (induction ys arbitrary: acc)
  case Nil
  then show ?case by simp
next
  case (Cons y ys)
  from Cons.prems obtain line where
    p: "render_line img width ramp color brightness contrast gamma y = Inr line"
    and r: "render_rows img width ramp color brightness contrast gamma ys (acc @ [line]) = Inr lines"
    by (auto split: sum.splits)
  from Cons.IH [OF r] obtain ls where
    ls: "lines = (acc @ [line]) @ ls" "length ls = length ys"
    "\<forall>i<length ys.
        render_line img width ramp color brightness contrast gamma (ys ! i) = Inr (ls ! i)"
    by blast
  have "\<forall>i<length (y # ys).
        render_line img width ramp color brightness contrast gamma ((y # ys) ! i)
          = Inr ((line # ls) ! i)"
  proof (intro allI impI)
    fix i assume "i < length (y # ys)"
    then show "render_line img width ramp color brightness contrast gamma ((y # ys) ! i)
          = Inr ((line # ls) ! i)"
      using p ls(3) by (cases i) simp_all
  qed
  with ls(1,2) show ?case
    by (intro exI [of _ "line # ls"]) simp
qed

lemma render_rows_total:
  "(\<forall>y\<in>set ys. \<exists>line.
       render_line img width ramp color brightness contrast gamma y = Inr line) \<Longrightarrow>
   \<exists>lines. render_rows img width ramp color brightness contrast gamma ys acc = Inr lines"
  by (induction ys arbitrary: acc) auto

lemma render_line_Inr:
  assumes "render_line img width ramp color brightness contrast gamma y = Inr line"
  shows "\<exists>glyphs. length glyphs = nat width
     \<and> (\<forall>x<nat width.
          pixel_glyph ramp (getpixel img (x, y)) brightness contrast gamma = Inr (glyphs ! x))
     \<and> line = (if color
               then concat (map (\<lambda>x. (case getpixel img (x, y) of (r, g, b) \<Rightarrow> ansi_fg r g b)
                                       @ [glyphs ! x]) [0..<nat width]) @ RESET
               else glyphs)"
proof -
  let ?n = "nat width"
  let ?esc = "\<lambda>x. (case getpixel img (x, y) of (r, g, b) \<Rightarrow> ansi_fg r g b)"
  from assms obtain parts where
    c: "render_cols img ramp color brightness contrast gamma y [0..<?n] [] = Inr parts"
    and l: "line = concat (if color then parts @ [RESET] else parts)"
    by (auto simp add: render_line_def split: sum.splits)
  from render_cols_Inr [OF c] have
    len: "length parts = ?n"
    and px: "\<forall>i<?n. render_pixel ramp color brightness contrast gamma (getpixel img (i, y))
                      = Inr (parts ! i)"
    by auto
  define glyphs where "glyphs = map last parts"
  have part: "pixel_glyph ramp (getpixel img (i, y)) brightness contrast gamma = Inr (glyphs ! i)
            \<and> parts ! i = (if color then ?esc i @ [glyphs ! i] else [glyphs ! i])"
    if "i < ?n" for i
  proof -
    from px that have
      "render_pixel ramp color brightness contrast gamma (getpixel img (i, y)) = Inr (parts ! i)"
      by simp
    from render_pixel_Inr [OF this] obtain ch where
      ch: "pixel_glyph ramp (getpixel img (i, y)) brightness contrast gamma = Inr ch"
          "parts ! i = (if color then ?esc i @ [ch] else [ch])"
      by blast
    from ch(2) have "last (parts ! i) = ch" by simp
    with that len have "glyphs ! i = ch" by (simp add: glyphs_def)
    with ch show ?thesis by simp
  qed
  have parts_eq: "parts = map (\<lambda>i. if color then ?esc i @ [glyphs ! i] else [glyphs ! i]) [0..<?n]"
    using len part by (intro nth_equalityI) simp_all
  have g1: "length glyphs = ?n" by (simp add: glyphs_def len)
  have plain: "concat (map (\<lambda>i. [glyphs ! i]) [0..<?n]) = glyphs"
  proof -
    have "map (\<lambda>i. [glyphs ! i]) [0..<?n] = map (\<lambda>c. [c]) glyphs"
      using g1 by (intro nth_equalityI) simp_all
    then show ?thesis by simp
  qed
  have "line = (if color then concat (map (\<lambda>x. ?esc x @ [glyphs ! x]) [0..<?n]) @ RESET else glyphs)"
  proof (cases color)
    case True
    with l parts_eq show ?thesis by simp
  next
    case False
    with l parts_eq plain show ?thesis by simp
  qed
  with g1 part show ?thesis by blast
qed

text \<open>The characters of the escape sequences and of the glyphs.\<close>

lemma of_char_digit_char: "d < 10 \<Longrightarrow> (of_char (digit_char d) :: nat) = 48 + d"
  by (simp add: digit_char_def)

lemma str_nat_chars:
  "c \<in> set (str_nat n) \<Longrightarrow> 48 \<le> (of_char c :: nat) \<and> (of_char c :: nat) \<le> 57"
proof (induction n rule: str_nat.induct)
  case (1 n)
  show ?case
  proof (cases "n < 10")
    case True
    with "1.prems" have "c = digit_char n" by (simp add: str_nat.simps)
    with True show ?thesis by (simp add: of_char_digit_char)
  next
    case False
    with "1.prems" have "c \<in> set (str_nat (n div 10)) \<or> c = digit_char (n mod 10)"
      by (subst (asm) str_nat.simps) auto
    then show ?thesis
    proof
      assume "c \<in> set (str_nat (n div 10))"
      with False "1.IH" show ?thesis by simp
    next
      assume "c = digit_char (n mod 10)"
      then show ?thesis by (simp add: of_char_digit_char)
    qed
  qed
qed

lemma str_int_chars:
  "c \<in> set (str_int i) \<Longrightarrow> c = CHR ''-'' \<or> (48 \<le> (of_char c :: nat) \<and> (of_char c :: nat) \<le> 57)"
  by (auto simp add: str_int_def dest: str_nat_chars split: if_splits)

lemma str_int_no_ctrl: "CHR 0x1B \<notin> set (str_int i)" "CHR 0x0A \<notin> set (str_int i)"
  using str_int_chars [of "CHR 0x1B" i] str_int_chars [of "CHR 0x0A" i] by auto

lemma ansi_fg_shape:
  "\<exists>tl. ansi_fg r g b = CHR 0x1B # CHR ''['' # CHR ''3'' # tl \<and> CHR 0x1B \<notin> set tl"
  by (simp add: ansi_fg_def str_int_no_ctrl)

lemma ansi_fg_head: "\<exists>tl. ansi_fg r g b = CHR 0x1B # tl"
  by (simp add: ansi_fg_def)

lemma ansi_fg_no_newline: "CHR 0x0A \<notin> set (ansi_fg r g b)"
  by (simp add: ansi_fg_def str_int_no_ctrl)

lemma py_getitem_mem: "py_getitem s i = Inr ch \<Longrightarrow> ch \<in> set s"
  by (auto simp add: py_getitem_def Let_def split: if_splits)

lemma pixel_glyph_mem:
  "pixel_glyph ramp p brightness contrast gamma = Inr ch \<Longrightarrow> ch \<in> set ramp"
  by (auto simp add: pixel_glyph_def quantize_def split: sum.splits dest: py_getitem_mem)

lemma count_list_str_join:
  "(\<forall>l\<in>set ls. c \<notin> set l) \<Longrightarrow> count_list (str_join [c] ls) c = length ls - 1"
  by (induction "[c]" ls rule: str_join.induct) (simp_all add: count_list_0_iff)

lemma occurrences_skip:
  "c \<notin> set pre \<Longrightarrow> occurrences (c # pat) (pre @ rest) = occurrences (c # pat) rest"
  by (induction pre) auto

lemma occurrences_RESET_cell:
  "occurrences RESET (ansi_fg r g b @ ch # CHR 0x1B # rest) = occurrences RESET (CHR 0x1B # rest)"
proof -
  obtain tl where tl: "ansi_fg r g b = CHR 0x1B # CHR ''['' # CHR ''3'' # tl" "CHR 0x1B \<notin> set tl"
    using ansi_fg_shape by blast
  have "occurrences RESET (ansi_fg r g b @ ch # CHR 0x1B # rest)
      = occurrences RESET ((CHR ''['' # CHR ''3'' # tl) @ ch # CHR 0x1B # rest)"
    by (simp add: tl(1) RESET_def)
  also have "\<dots> = occurrences RESET (ch # CHR 0x1B # rest)"
    unfolding RESET_def using tl(2) by (intro occurrences_skip) simp
  also have "\<dots> = occurrences RESET (CHR 0x1B # rest)"
    by (simp add: RESET_def)
  finally show ?thesis .
qed

lemma colour_line_head:
  "\<exists>rest. concat (map (\<lambda>x. esc x @ [gl x]) xs) @ RESET = CHR 0x1B # rest"
  if "\<And>x. \<exists>tl. esc x = CHR 0x1B # tl"
proof (cases xs)
  case Nil
  then show ?thesis by (simp add: RESET_def)
next
  case (Cons x xs')
  from that [of x] obtain tl where "esc x = CHR 0x1B # tl" by blast
  with Cons show ?thesis by simp
qed

lemma occurrences_RESET_line:
  "occurrences RESET
     (concat (map (\<lambda>x. (case px x of (r, g, b) \<Rightarrow> ansi_fg r g b) @ [gl x]) xs) @ RESET) = 1"
proof (induction xs)
  case Nil
  show ?case by (simp add: RESET_def)
next
  case (Cons x xs)
  let ?esc = "\<lambda>x. (case px x of (r, g, b) \<Rightarrow> ansi_fg r g b)"
  have e: "\<And>x. \<exists>tl. ?esc x = CHR 0x1B # tl"
    by (simp add: ansi_fg_head split: prod.splits)
  from colour_line_head [of ?esc gl xs, OF e] obtain rest where
    rest: "concat (map (\<lambda>x. ?esc x @ [gl x]) xs) @ RESET = CHR 0x1B # rest"
    by blast
  obtain r g b where p: "px x = (r, g, b)" by (cases "px x")
  have "occurrences RESET (concat (map (\<lambda>x. ?esc x @ [gl x]) (x # xs)) @ RESET)
      = occurrences RESET (ansi_fg r g b @ gl x # CHR 0x1B # rest)"
    using rest by (simp add: p)
  also have "\<dots> = occurrences RESET (CHR 0x1B # rest)"
    by (rule occurrences_RESET_cell)
  also have "\<dots> = 1"
    using Cons.IH rest by simp
  finally show ?case .
qed

lemma render_line_no_newline:
  assumes "render_line img width ramp color brightness contrast gamma y = Inr line"
    and "CHR 0x0A \<notin> set ramp"
  shows "CHR 0x0A \<notin> set line"
proof -
  from render_line_Inr [OF assms(1)] obtain glyphs where
    g: "length glyphs = nat width"
       "\<forall>x<nat width.
          pixel_glyph ramp (getpixel img (x, y)) brightness contrast gamma = Inr (glyphs ! x)"
       "line = (if color
               then concat (map (\<lambda>x. (case getpixel img (x, y) of (r, g, b) \<Rightarrow> ansi_fg r g b)
                                       @ [glyphs ! x]) [0..<nat width]) @ RESET
               else glyphs)"
    by blast
  have m: "glyphs ! x \<in> set ramp" if "x < nat width" for x
    using g(2) that by (auto dest: pixel_glyph_mem)
  then have s: "set glyphs \<subseteq> set ramp"
    using g(1) by (auto simp add: in_set_conv_nth)
  show ?thesis
  proof (cases color)
    case False
    with g(3) s assms(2) show ?thesis by auto
  next
    case True
    have "CHR 0x0A \<notin> set ((case getpixel img (x, y) of (r, g, b) \<Rightarrow> ansi_fg r g b) @ [glyphs ! x])"
      if "x < nat width" for x
      using m [OF that] assms(2) by (auto simp add: ansi_fg_no_newline split: prod.splits)
    with True g(3) show ?thesis by (auto simp add: RESET_def)
  qed
qed

lemma ansi_fg_red: "ansi_fg 255 0 0 = CHR 0x1B # ''[38;2;255;0;0m''"
  by code_simp

lemma black_glyph:
  "ramp \<noteq> [] \<Longrightarrow> pixel_glyph ramp (0, 0, 0) 1.05 1.25 0.85 = Inr (hd ramp)"
  using black_pixel_tone by (cases ramp)
    (simp_all add: pixel_glyph_def quantize_def glyph_index_def py_int_def py_getitem_def)

lemma black_grid:
  "render_grid \<lparr>img_size = (2, 2), getpixel = (\<lambda>xy. (0, 0, 0))\<rparr> 2 2 '' .:-=+*#%@'' False
     1.05 1.25 0.85 = Inr (''  '' @ newline @ ''  '')"
proof -
  have g: "pixel_glyph '' .:-=+*#%@'' (0, 0, 0) 1.05 1.25 0.85 = Inr CHR '' ''"
    using black_glyph [of "'' .:-=+*#%@''"] by simp
  have u: "[0..<2] = [0, Suc 0]" by (simp add: upt_rec)
  show ?thesis
    using g by (simp add: render_grid_def render_line_def u render_pixel_def)
qed

lemma red_line:
  "render_line \<lparr>img_size = (1, 1), getpixel = (\<lambda>xy. (255, 0, 0))\<rparr> 1 '' .:-=+*#%@'' True
     1 1 1 0 = Inr ((CHR 0x1B # ''[38;2;255;0;0m'') @ ''.'' @ RESET)"
proof -
  have t: "pixel_tone (255, 0, 0) 1 1 1 = Inr 0.2126"
    by (simp add: pixel_tone_def tone_map_def pixel_lum0_def rgb_to_luma_def inv_255_def
          gamma_base_def Let_def py_pow_def clamp_pow_def clamp_def)
  have g: "pixel_glyph '' .:-=+*#%@'' (255, 0, 0) 1 1 1 = Inr CHR ''.''"
    using t by (simp add: pixel_glyph_def quantize_def glyph_index_def py_int_def py_getitem_def)
  show ?thesis
    using g by (simp add: render_line_def render_pixel_def ansi_fg_red)
qed

text \<open>The escape sequence determines the three colour values it was built from.\<close>

lemma str_nat_nonempty: "str_nat n \<noteq> []"
  by (subst str_nat.simps) simp

lemma digit_char_inj:
  assumes "a < 10" and "b < 10" and "digit_char a = digit_char b"
  shows "a = b"
proof -
  from assms(3) have "(of_char (digit_char a) :: nat) = of_char (digit_char b)"
    by (rule arg_cong)
  then have "48 + a = 48 + b"
    by (simp only: of_char_digit_char [OF assms(1)] of_char_digit_char [OF assms(2)])
  then show ?thesis by simp
qed

lemma str_nat_inj: "str_nat n = str_nat m \<Longrightarrow> n = m"
proof (induction n arbitrary: m rule: str_nat.induct)
  case (1 n)
  show ?case
  proof (cases "n < 10")
    case True
    then have n: "str_nat n = [digit_char n]" by (simp add: str_nat.simps)
    show ?thesis
    proof (cases "m < 10")
      case m: True
      then have "str_nat m = [digit_char m]" by (simp add: str_nat.simps)
      with n "1.prems" have "digit_char n = digit_char m" by simp
      with True m show ?thesis by (rule digit_char_inj)
    next
      case False
      then have "str_nat m = str_nat (m div 10) @ [digit_char (m mod 10)]"
        by (subst str_nat.simps) simp
      with n "1.prems" str_nat_nonempty [of "m div 10"] show ?thesis by simp
    qed
  next
    case False
    then have n: "str_nat n = str_nat (n div 10) @ [digit_char (n mod 10)]"
      by (subst str_nat.simps) simp
    show ?thesis
    proof (cases "m < 10")
      case True
      then have "str_nat m = [digit_char m]" by (simp add: str_nat.simps)
      with n "1.prems" str_nat_nonempty [of "n div 10"] show ?thesis by simp
    next
      case m: False
      then have "str_nat m = str_nat (m div 10) @ [digit_char (m mod 10)]"
        by (subst str_nat.simps) simp
      with n "1.prems" have
        a: "str_nat (n div 10) = str_nat (m div 10)"
        and b: "digit_char (n mod 10) = digit_char (m mod 10)"
        by simp_all
      from "1.IH" [OF False a] have "n div 10 = m div 10" .
      moreover from b have "n mod 10 = m mod 10" by (intro digit_char_inj) simp_all
      ultimately show ?thesis by (metis div_mult_mod_eq)
    qed
  qed
qed

lemma str_nat_no_minus: "CHR ''-'' \<notin> set (str_nat n)"
  using str_nat_chars [of "CHR ''-''" n] by auto

lemma str_int_inj: "str_int i = str_int j \<Longrightarrow> i = j"
proof -
  assume e: "str_int i = str_int j"
  have hd_mem: "\<And>n. hd (str_nat n) \<in> set (str_nat n)"
    using str_nat_nonempty by simp
  consider "i < 0" "j < 0" | "0 \<le> i" "0 \<le> j" | "i < 0" "0 \<le> j" | "0 \<le> i" "j < 0"
    by linarith
  then show ?thesis
  proof cases
    case 1
    with e have "nat (- i) = nat (- j)" by (auto simp add: str_int_def dest: str_nat_inj)
    with 1 show ?thesis by simp
  next
    case 2
    with e have "nat i = nat j" by (auto simp add: str_int_def dest: str_nat_inj)
    with 2 show ?thesis by simp
  next
    case 3
    with e have "CHR ''-'' # str_nat (nat (- i)) = str_nat (nat j)"
      by (simp add: str_int_def)
    then have "CHR ''-'' \<in> set (str_nat (nat j))" by (metis list.set_intros(1))
    with str_nat_no_minus show ?thesis by blast
  next
    case 4
    with e have "str_nat (nat i) = CHR ''-'' # str_nat (nat (- j))"
      by (simp add: str_int_def)
    then have "CHR ''-'' \<in> set (str_nat (nat i))" by (metis list.set_intros(1))
    with str_nat_no_minus show ?thesis by blast
  qed
qed

lemma split_at_separator:
  "c \<notin> set xs \<Longrightarrow> c \<notin> set xs' \<Longrightarrow> xs @ c # ys = xs' @ c # ys' \<Longrightarrow> xs = xs' \<and> ys = ys'"
proof (induction xs arbitrary: xs')
  case Nil
  then show ?case by (cases xs') auto
next
  case (Cons x xs)
  then show ?case by (cases xs') auto
qed

lemma str_int_no_separator:
  "CHR '';'' \<notin> set (str_int i)" "CHR ''m'' \<notin> set (str_int i)"
  using str_int_chars [of "CHR '';''" i] str_int_chars [of "CHR ''m''" i] by auto

lemma ansi_fg_inj:
  assumes "ansi_fg r g b = ansi_fg r' g' b'"
  shows "r = r' \<and> g = g' \<and> b = b'"
proof -
  from assms have
    "str_int r @ CHR '';'' # (str_int g @ CHR '';'' # (str_int b @ ''m''))
   = str_int r' @ CHR '';'' # (str_int g' @ CHR '';'' # (str_int b' @ ''m''))"
    by (simp add: ansi_fg_def)
  from split_at_separator [OF str_int_no_separator(1) str_int_no_separator(1) this] have
    r: "str_int r = str_int r'"
    and 1: "str_int g @ CHR '';'' # (str_int b @ ''m'') = str_int g' @ CHR '';'' # (str_int b' @ ''m'')"
    by simp_all
  from split_at_separator [OF str_int_no_separator(1) str_int_no_separator(1) 1] have
    g: "str_int g = str_int g'" and 2: "str_int b @ ''m'' = str_int b' @ ''m''"
    by simp_all
  from 2 have b: "str_int b = str_int b'" by simp
  from r g b show ?thesis by (simp add: str_int_inj)
qed

text \<open>When a pixel, a line and the whole grid yield a result.\<close>

lemma tone_map_cases:
  "tone_map lum brightness contrast gamma =
     (if gamma < 0 \<and> gamma_base lum brightness contrast = 0 then Inl ZeroDivisionError
      else Inr (clamp (if gamma = 0 then 1
                       else if gamma_base lum brightness contrast = 0 then 0
                       else gamma_base lum brightness contrast powr gamma) 0 1))"
  using gamma_base_bounds [of lum brightness contrast]
  by (auto simp add: tone_map_def py_pow_def clamp_pow_def)

lemma tone_map_range:
  "tone_map lum brightness contrast gamma = Inr t \<Longrightarrow> 0 \<le> t \<and> t \<le> 1"
  by (auto simp add: tone_map_cases clamp_def split: if_splits)

lemma glyph_index_range:
  assumes "0 \<le> lum" and "lum \<le> 1" and "1 \<le> n"
  shows "glyph_index lum n = \<lfloor>lum * real_of_int (n - 1)\<rfloor>"
    and "0 \<le> glyph_index lum n" and "glyph_index lum n \<le> n - 1"
proof -
  from assms(3) have m: "0 \<le> real_of_int (n - 1)" by simp
  with assms(1) have p: "0 \<le> lum * real_of_int (n - 1)" by simp
  have q: "lum * real_of_int (n - 1) \<le> real_of_int (n - 1)"
    using mult_right_mono [OF assms(2) m] by simp
  have e: "glyph_index lum n = \<lfloor>lum * real_of_int (n - 1)\<rfloor>"
    using p by (simp add: glyph_index_def py_int_nonneg)
  have lo: "0 \<le> glyph_index lum n" using p e by simp
  have "\<lfloor>lum * real_of_int (n - 1)\<rfloor> \<le> \<lfloor>real_of_int (n - 1)\<rfloor>"
    using q by (rule floor_mono)
  then have hi: "glyph_index lum n \<le> n - 1" unfolding e by simp
  from e lo hi show "glyph_index lum n = \<lfloor>lum * real_of_int (n - 1)\<rfloor>"
    and "0 \<le> glyph_index lum n" and "glyph_index lum n \<le> n - 1" by simp_all
qed

lemma quantize_total:
  assumes "0 \<le> lum" and "lum \<le> 1" and "ramp \<noteq> []"
  shows "quantize ramp lum = Inr (ramp ! nat (glyph_index lum (int (length ramp))))"
proof -
  from assms(3) have "1 \<le> int (length ramp)" by (cases ramp) simp_all
  from glyph_index_range(2,3) [OF assms(1,2) this] show ?thesis
    by (simp add: quantize_def py_getitem_def Let_def)
qed

lemma pixel_glyph_total:
  assumes "ramp \<noteq> []" and "0 \<le> gamma \<or> gamma_base (pixel_lum0 p) brightness contrast \<noteq> 0"
  shows "\<exists>ch. pixel_glyph ramp p brightness contrast gamma = Inr ch"
proof -
  from assms(2) obtain t where t: "pixel_tone p brightness contrast gamma = Inr t"
    by (auto simp add: pixel_tone_def tone_map_cases)
  then have "0 \<le> t \<and> t \<le> 1"
    unfolding pixel_tone_def by (rule tone_map_range)
  with assms(1) have "quantize ramp t = Inr (ramp ! nat (glyph_index t (int (length ramp))))"
    by (simp add: quantize_total)
  with t show ?thesis by (simp add: pixel_glyph_def)
qed

lemma render_grid_total:
  assumes "ramp \<noteq> []" and "0 \<le> gamma"
  shows "\<exists>out. render_grid img width height ramp color brightness contrast gamma = Inr out"
proof -
  have px: "\<exists>part. render_pixel ramp color brightness contrast gamma p = Inr part" for p
    using pixel_glyph_total [of ramp gamma p brightness contrast] assms
    by (auto simp add: render_pixel_def split: prod.splits)
  have "\<exists>line. render_line img width ramp color brightness contrast gamma y = Inr line" for y
    using render_cols_total [of "[0..<nat width]" ramp color brightness contrast gamma img y "[]"] px
    by (auto simp add: render_line_def)
  then have "\<exists>lines. render_rows img width ramp color brightness contrast gamma
                       [0..<nat height] [] = Inr lines"
    by (intro render_rows_total) simp
  then show ?thesis by (auto simp add: render_grid_def)
qed

lemma image_to_ascii_Inr:
  assumes "image_to_ascii resize img width ramp color brightness contrast gamma aspect = Inr out"
  shows "\<exists>height. target_height (fst (img_size img)) (snd (img_size img)) width aspect = Inr height
           \<and> 1 \<le> height
           \<and> render_grid (resize img (width, height)) width height
                ramp color brightness contrast gamma = Inr out"
  using assms
  by (auto simp add: image_to_ascii_def target_height_def split: prod.splits sum.splits)

lemma gamma_base_order:
  "gamma_base 0.4 0.5 2 = 0.15 \<and> clamp ((0.4 * 0.5 - 0.5) * 2 + 0.5) 0 1 = 0"
  by (simp add: gamma_base_def Let_def clamp_def)



lemma glyph_index_order_reversed:
  assumes "contrast * brightness < 0" and "0 < gamma" and "2 \<le> length ramp"
  shows "\<exists>lum lum' s t. lum \<le> lum'
           \<and> tone_map lum brightness contrast gamma = Inr s
           \<and> tone_map lum' brightness contrast gamma = Inr t
           \<and> glyph_index t (int (length ramp)) < glyph_index s (int (length ramp))"
proof -
  define d where "d = - (contrast * brightness)"
  define K where "K = max 0 (max ((1 - brightness / 2) / d) ((brightness / 2) / d))"
  have d: "0 < d" using assms(1) by (simp add: d_def)
  have K0: "0 \<le> K" by (simp add: K_def)
  have "(1 - brightness / 2) / d \<le> K" by (simp add: K_def)
  then have k1: "1 - brightness / 2 \<le> K * d" using d by (simp add: pos_divide_le_eq)
  have "(brightness / 2) / d \<le> K" by (simp add: K_def)
  then have k2: "brightness / 2 \<le> K * d" using d by (simp add: pos_divide_le_eq)
  have e1: "(((1/2 - K) - 0.5) * contrast + 0.5) * brightness = K * d + brightness / 2"
    by (simp add: d_def algebra_simps)
  have e2: "(((1/2 + K) - 0.5) * contrast + 0.5) * brightness = - (K * d) + brightness / 2"
    by (simp add: d_def algebra_simps)
  have b1: "gamma_base (1/2 - K) brightness contrast = 1"
    unfolding gamma_base_def Let_def e1 using k1 by (simp add: clamp_def)
  have b2: "gamma_base (1/2 + K) brightness contrast = 0"
    unfolding gamma_base_def Let_def e2 using k2 by (simp add: clamp_def)
  have s: "tone_map (1/2 - K) brightness contrast gamma = Inr 1"
    using assms(2) by (simp add: tone_map_cases b1 clamp_def)
  have t: "tone_map (1/2 + K) brightness contrast gamma = Inr 0"
    using assms(2) by (simp add: tone_map_cases b2 clamp_def)
  have i: "glyph_index 0 (int (length ramp)) < glyph_index 1 (int (length ramp))"
    using assms(3) by (simp add: glyph_index_def py_int_def)
  have "1/2 - K \<le> 1/2 + K" using K0 by simp
  with s t i show ?thesis by blast
qed

section \<open>The dimension formula\<close>

text \<open>
  C1, as the specification states it: the target height is
  \<open>max(1, round((sourceHeight / sourceWidth) * width * aspect))\<close>. The code truncates
  with \<open>int\<close> where the specification rounds: for a 100 by 70 source at width 80 and
  aspect 0.55 the product is 30.800000000000004, which the code turns into 30 and
  rounding into 31.
\<close>

theorem target_height_round_counterexample:
  "target_height 100 70 80 (Fin (fl 0.55)) = Inr 30
   \<and> spec_target_height 100 70 80 (Fin (fl 0.55)) = Inr 31"
  by (simp add: target_height_def spec_target_height_def fl_055_normal product_100_70 py_int_def rne_def Let_def)

text \<open>
  C1, amended: for positive source width and height, positive requested width and positive
  aspect, the target height is \<open>max(1, floor(p))\<close> where \<open>p\<close> is the product
  \<open>(sourceHeight / sourceWidth) * width * aspect\<close> as double precision computes it from
  left to right, truncated and not rounded; whenever a height is computed it is at least 1;
  a 100 by 50 source at width 80 and aspect 0.55 gives 22. The height is the floor of
  the computed product, not of the exact one: a 55 by 29 source at width 100 and aspect
  0.55 has the computed product 28.999999999999996 and the height 28.
\<close>

theorem target_height_trunc:
  "(0 < orig_w \<and> 0 < orig_h \<and> 0 < width \<and> 0 < a
      \<and> height_product orig_w orig_h width (Fin a) = Inr (Fin p) \<longrightarrow>
      0 \<le> p \<and> target_height orig_w orig_h width (Fin a) = Inr (max 1 \<lfloor>p\<rfloor>))
   \<and> (\<forall>h. target_height orig_w orig_h width aspect = Inr h \<longrightarrow> 1 \<le> h)
   \<and> target_height 100 50 80 (Fin (fl 0.55)) = Inr 22
   \<and> target_height 55 29 100 (Fin (fl 0.55)) = Inr 28"
proof -
  have a: "0 \<le> p \<and> target_height orig_w orig_h width (Fin a) = Inr (max 1 \<lfloor>p\<rfloor>)"
    if "0 < orig_w" "0 < orig_h" "0 < width" "0 < a"
      "height_product orig_w orig_h width (Fin a) = Inr (Fin p)"
  proof -
    from that have "0 \<le> p" by (rule height_product_nonneg)
    with that(5) show ?thesis by (simp add: target_height_def py_int_def)
  qed
  have b: "\<forall>h. target_height orig_w orig_h width aspect = Inr h \<longrightarrow> 1 \<le> h"
    by (auto simp add: target_height_def split: sum.splits)
  have c: "target_height 100 50 80 (Fin (fl 0.55)) = Inr 22"
    by (simp add: target_height_def fl_055_normal product_100_50 py_int_def)
  have d: "target_height 55 29 100 (Fin (fl 0.55)) = Inr 28"
    by (simp add: target_height_def fl_055_normal product_55_29 py_int_def)
  from a b c d show ?thesis by blast
qed

theorem target_height_trunc_witness:
  "(0::int) < 100 \<and> (0::int) < 70 \<and> (0::int) < 80 \<and> (0::real) < 2476979795053773/4503599627370496
   \<and> height_product 100 70 80 (Fin (fl 0.55)) = Inr (Fin (4334714641344103/140737488355328))
   \<and> target_height 100 70 80 (Fin (fl 0.55)) = Inr 30 \<and> (1::int) \<le> 30"
  using target_height_trunc [of 100 70 80 "2476979795053773/4503599627370496"
      "4334714641344103/140737488355328" "Fin (fl 0.55)"] product_100_70
  by (simp add: fl_055_normal)

section \<open>Tone mapping\<close>

text \<open>
  C2, as the specification states it: the tone mapping equals the five steps with
  \<open>lum0 = (0.2126*r + 0.7152*g + 0.0722*b) / 255\<close>. Line 58 multiplies the luma by the
  double nearest to 1/255 instead, and the two round differently: for the grey pixel
  (204, 204, 204) the luma is 203.99999999999997, the code gets 0.7999999999999998 and
  the division 0.7999999999999999. With brightness, contrast and gamma 1 the difference
  reaches the luminance before the power and, with a power that is correctly rounded, the
  final luminance.
\<close>

theorem pixel_tone_division_counterexample:
  "pixel_lum0_f64 (204, 204, 204) = Inr (Fin (900719925474099/1125899906842624))
   \<and> spec_lum0 204 204 204 = Inr (Fin (7205759403792793/9007199254740992))
   \<and> gamma_base_f64 (Fin (900719925474099/1125899906842624)) (Fin 1) (Fin 1) = Fin (900719925474099/1125899906842624)
   \<and> gamma_base_f64 (Fin (7205759403792793/9007199254740992)) (Fin 1) (Fin 1) = Fin (7205759403792793/9007199254740992)
   \<and> pixel_tone_f64 rounded_powr (204, 204, 204) (Fin 1) (Fin 1) (Fin 1) = Inr (Fin (900719925474099/1125899906842624))
   \<and> spec_tone_f64 rounded_powr 204 204 204 (Fin 1) (Fin 1) (Fin 1) = Inr (Fin (7205759403792793/9007199254740992))
   \<and> ((900719925474099/1125899906842624) :: real) < (7205759403792793/9007199254740992)"
  using grey_code_lum0 grey_spec_lum0 grey_code_base grey_spec_base grey_code_tone grey_spec_tone
  by simp

text \<open>
  C2, amended: for every pixel and all values of brightness, contrast and gamma, the tone
  mapping of the code equals the five steps in their order, every operation in double
  precision, with the first step a multiplication: the luma times the double nearest to
  1/255, then contrast around the midpoint, then brightness, a clamp to the unit interval,
  the power \<open>gamma\<close> and a second clamp. The equality covers the runs in which the
  power raises.
\<close>

theorem pixel_tone_f64_steps:
  "pixel_tone_f64 libm_pow (r, g, b) brightness contrast gamma
     = spec_tone_reciprocal libm_pow r g b brightness contrast gamma"
proof -
  have p: "tone_map_f64 libm_pow lum brightness contrast gamma
         = spec_steps libm_pow lum brightness contrast gamma" for lum
  proof -
    let ?x = "spec_clamp_f64 (fmul (fadd (fmul (fsub lum (Fin 0.5)) contrast) (Fin 0.5)) brightness)"
    have "py_pow_f64 libm_pow ?x gamma =
           (case spec_power libm_pow ?x gamma of Inl e \<Rightarrow> Inl e | Inr v \<Rightarrow> Inr (PowDouble v))"
      using spec_clamp_unit by (rule py_pow_unit)
    then show ?thesis
      by (simp add: tone_map_f64_def spec_steps_def gamma_base_f64_def Let_def clamp_f64_spec
            clamp_pow_f64_def split: sum.splits)
  qed
  show ?thesis
    by (simp add: pixel_tone_f64_def pixel_lum0_f64_def spec_tone_reciprocal_def inv_255_f64_def p
          split: sum.splits)
qed

text \<open>
  C5: for every pixel and all parameter values, negative ones included, the base of the
  power in line 66 has been clamped to the unit interval, so it is never negative; the
  power is never a complex number and the tone mapping never raises the TypeError that a
  complex power would cause.
\<close>

theorem gamma_base_never_negative:
  "0 \<le> gamma_base (pixel_lum0 p) brightness contrast
   \<and> gamma_base (pixel_lum0 p) brightness contrast \<le> 1
   \<and> py_pow (gamma_base (pixel_lum0 p) brightness contrast) gamma \<noteq> Inr PowComplex
   \<and> pixel_tone p brightness contrast gamma \<noteq> Inl TypeError"
proof -
  let ?x = "gamma_base (pixel_lum0 p) brightness contrast"
  have b: "0 \<le> ?x \<and> ?x \<le> 1" by (rule gamma_base_bounds)
  then have c: "py_pow ?x gamma \<noteq> Inr PowComplex"
    by (simp add: py_pow_def)
  have "pixel_tone p brightness contrast gamma \<noteq> Inl TypeError"
    using b by (simp add: pixel_tone_def tone_map_def py_pow_def clamp_pow_def)
  with b c show ?thesis by simp
qed

text \<open>
  C9: for the black pixel and the default parameters (brightness 1.05, contrast 1.25,
  gamma 0.85) the scaled luma is 0, contrast gives -0.125, brightness keeps it negative,
  the first clamp gives 0, the power of 0 is 0, the final luminance is 0, the glyph index
  is 0 and the pixel maps to the first character of every non-empty ramp.
\<close>

theorem black_pixel_default_params:
  "pixel_lum0 (0, 0, 0) = 0
   \<and> ((0::real) - 0.5) * 1.25 + 0.5 = - 0.125
   \<and> (((0::real) - 0.5) * 1.25 + 0.5) * 1.05 < 0
   \<and> gamma_base 0 1.05 1.25 = 0
   \<and> py_pow 0 0.85 = Inr (PowFloat 0)
   \<and> pixel_tone (0, 0, 0) 1.05 1.25 0.85 = Inr 0
   \<and> glyph_index 0 (int (length ramp)) = 0
   \<and> (ramp \<noteq> [] \<longrightarrow> pixel_glyph ramp (0, 0, 0) 1.05 1.25 0.85 = Inr (hd ramp))"
proof -
  have l: "pixel_lum0 (0, 0, 0) = 0"
    by (simp add: pixel_lum0_def rgb_to_luma_def)
  have g: "gamma_base 0 1.05 1.25 = 0"
    by (simp add: gamma_base_def Let_def clamp_def)
  have p: "py_pow 0 0.85 = Inr (PowFloat 0)"
    by (simp add: py_pow_def)
  have t: "pixel_tone (0, 0, 0) 1.05 1.25 0.85 = Inr 0"
    by (rule black_pixel_tone)
  have i: "glyph_index 0 (int (length ramp)) = 0"
    by (simp add: glyph_index_def py_int_def)
  have q: "ramp \<noteq> [] \<longrightarrow> pixel_glyph ramp (0, 0, 0) 1.05 1.25 0.85 = Inr (hd ramp)"
    using t by (cases ramp)
      (simp_all add: pixel_glyph_def quantize_def glyph_index_def py_int_def py_getitem_def)
  from l g p t i q show ?thesis by simp
qed

theorem black_pixel_default_params_witness:
  "'' .:-=+*#%@'' \<noteq> [] \<and> pixel_glyph '' .:-=+*#%@'' (0, 0, 0) 1.05 1.25 0.85 = Inr CHR '' ''"
  using black_pixel_default_params [of "'' .:-=+*#%@''"]
  by simp

section \<open>Glyph quantisation\<close>

text \<open>
  C3: for every final luminance in the unit interval and every non-empty ramp of length N,
  the glyph index is \<open>floor(lum * (N - 1))\<close> and lies between 0 and N - 1, so the ramp is
  read inside its bounds; at luminance 1 the index is N - 1.
\<close>

theorem glyph_index_in_bounds:
  assumes "0 \<le> lum" and "lum \<le> 1" and "ramp \<noteq> []"
  shows "glyph_index lum (int (length ramp)) = \<lfloor>lum * real_of_int (int (length ramp) - 1)\<rfloor>
       \<and> 0 \<le> glyph_index lum (int (length ramp))
       \<and> glyph_index lum (int (length ramp)) \<le> int (length ramp) - 1
       \<and> quantize ramp lum = Inr (ramp ! nat (glyph_index lum (int (length ramp))))
       \<and> glyph_index 1 (int (length ramp)) = int (length ramp) - 1"
proof -
  let ?n = "int (length ramp)"
  from assms(3) have n: "1 \<le> ?n" by (cases ramp) simp_all
  note r = glyph_index_range [OF assms(1,2) n]
  have g: "quantize ramp lum = Inr (ramp ! nat (glyph_index lum ?n))"
    using assms by (rule quantize_total)
  have o: "glyph_index 1 ?n = ?n - 1"
    using n by (simp add: glyph_index_def py_int_def)
  from r g o show ?thesis by simp
qed

theorem glyph_index_in_bounds_witness:
  "(0::real) \<le> 1/2 \<and> (1/2::real) \<le> 1 \<and> '' .:-=+*#%@'' \<noteq> []
   \<and> glyph_index (1/2) 10 = 4 \<and> quantize '' .:-=+*#%@'' (1/2) = Inr CHR ''=''
   \<and> glyph_index 1 10 = 9"
  using glyph_index_in_bounds [of "1/2" "'' .:-=+*#%@''"]
  by simp






section \<open>Rendering\<close>

text \<open>
  C6: for every resampled grid of the given width and height, the output that is produced
  is exactly height lines joined by one line-break character, the line of row \<open>y\<close> at
  position \<open>y\<close>; each line holds exactly width glyphs, the glyph of column \<open>x\<close> at
  position \<open>x\<close>, each preceded by its escape sequence and the line followed by the
  reset sequence when colour is enabled. When the ramp holds no line break, the output
  holds exactly height - 1 of them.
\<close>

theorem render_grid_shape:
  assumes "render_grid img width height ramp color brightness contrast gamma = Inr out"
  shows "\<exists>lines. out = str_join newline lines \<and> length lines = nat height
     \<and> (\<forall>y<nat height. \<exists>glyphs. length glyphs = nat width
          \<and> (\<forall>x<nat width.
               pixel_glyph ramp (getpixel img (x, y)) brightness contrast gamma
                 = Inr (glyphs ! x))
          \<and> lines ! y =
              (if color
               then concat (map (\<lambda>x. (case getpixel img (x, y) of (r, g, b) \<Rightarrow> ansi_fg r g b)
                                       @ [glyphs ! x]) [0..<nat width]) @ RESET
               else glyphs))
     \<and> (CHR 0x0A \<notin> set ramp \<longrightarrow> count_list out (CHR 0x0A) = nat height - 1)"
proof -
  let ?h = "nat height"
  from assms obtain lines where
    r: "render_rows img width ramp color brightness contrast gamma [0..<?h] [] = Inr lines"
    and o: "out = str_join newline lines"
    by (auto simp add: render_grid_def split: sum.splits)
  from render_rows_Inr [OF r] have
    len: "length lines = ?h"
    and row: "\<forall>y<?h. render_line img width ramp color brightness contrast gamma y
                      = Inr (lines ! y)"
    by auto
  have shape: "\<forall>y<?h. \<exists>glyphs. length glyphs = nat width
          \<and> (\<forall>x<nat width.
               pixel_glyph ramp (getpixel img (x, y)) brightness contrast gamma
                 = Inr (glyphs ! x))
          \<and> lines ! y =
              (if color
               then concat (map (\<lambda>x. (case getpixel img (x, y) of (r, g, b) \<Rightarrow> ansi_fg r g b)
                                       @ [glyphs ! x]) [0..<nat width]) @ RESET
               else glyphs)"
    using row render_line_Inr by blast
  have cnt: "count_list out (CHR 0x0A) = ?h - 1" if nl: "CHR 0x0A \<notin> set ramp"
  proof -
    have "\<forall>l\<in>set lines. CHR 0x0A \<notin> set l"
    proof
      fix l assume "l \<in> set lines"
      then obtain y where "y < ?h" "l = lines ! y"
        using len by (auto simp add: in_set_conv_nth)
      with row have "render_line img width ramp color brightness contrast gamma y = Inr l"
        by simp
      then show "CHR 0x0A \<notin> set l" using nl by (rule render_line_no_newline)
    qed
    then have "count_list (str_join [CHR 0x0A] lines) (CHR 0x0A) = length lines - 1"
      by (rule count_list_str_join)
    with o len show ?thesis by (simp add: newline_def)
  qed
  from o len shape cnt show ?thesis by blast
qed

theorem render_grid_shape_witness:
  "render_grid \<lparr>img_size = (2, 2), getpixel = (\<lambda>xy. (0, 0, 0))\<rparr> 2 2 '' .:-=+*#%@'' False
     1.05 1.25 0.85 = Inr (''  '' @ newline @ ''  '')
   \<and> CHR 0x0A \<notin> set '' .:-=+*#%@''
   \<and> count_list (''  '' @ newline @ ''  '') (CHR 0x0A) = nat 2 - 1
   \<and> (\<exists>lines. ''  '' @ newline @ ''  '' = str_join newline lines \<and> length lines = nat 2)"
  using render_grid_shape [OF black_grid] black_grid
  by auto

text \<open>
  C7: with colour enabled, the line of a row is, for every pixel of the row in order, the
  true-colour foreground escape sequence of the RGB values that \<open>getpixel\<close> returned,
  immediately followed by the glyph, and then the reset sequence, which occurs in the line
  exactly once; two different colours never share an escape sequence; for the pixel
  (255, 0, 0) the escape sequence is \<open>ESC[38;2;255;0;0m\<close>
  and it immediately precedes the glyph.
\<close>

theorem render_line_colour:
  assumes "render_line img width ramp True brightness contrast gamma y = Inr line"
  shows "(\<exists>glyphs. length glyphs = nat width
          \<and> (\<forall>x<nat width.
               pixel_glyph ramp (getpixel img (x, y)) brightness contrast gamma
                 = Inr (glyphs ! x))
          \<and> line = concat (map (\<lambda>x. (case getpixel img (x, y) of (r, g, b) \<Rightarrow> ansi_fg r g b)
                                       @ [glyphs ! x]) [0..<nat width]) @ RESET)
       \<and> occurrences RESET line = 1
       \<and> (\<forall>r g b r' g' b'. ansi_fg r g b = ansi_fg r' g' b' \<longrightarrow> r = r' \<and> g = g' \<and> b = b')
       \<and> ansi_fg 255 0 0 = CHR 0x1B # ''[38;2;255;0;0m''
       \<and> (\<forall>part. render_pixel ramp True brightness contrast gamma (255, 0, 0) = Inr part \<longrightarrow>
            (\<exists>ch. pixel_glyph ramp (255, 0, 0) brightness contrast gamma = Inr ch
                 \<and> part = (CHR 0x1B # ''[38;2;255;0;0m'') @ [ch]))"
proof -
  have i: "\<forall>r g b r' g' b'. ansi_fg r g b = ansi_fg r' g' b' \<longrightarrow> r = r' \<and> g = g' \<and> b = b'"
    using ansi_fg_inj by blast
  from render_line_Inr [OF assms] obtain glyphs where
    g: "length glyphs = nat width"
       "\<forall>x<nat width.
          pixel_glyph ramp (getpixel img (x, y)) brightness contrast gamma = Inr (glyphs ! x)"
       "line = concat (map (\<lambda>x. (case getpixel img (x, y) of (r, g, b) \<Rightarrow> ansi_fg r g b)
                                       @ [glyphs ! x]) [0..<nat width]) @ RESET"
    by auto
  have o: "occurrences RESET line = 1"
    unfolding g(3) by (rule occurrences_RESET_line)
  have a: "ansi_fg 255 0 0 = CHR 0x1B # ''[38;2;255;0;0m''"
    by (rule ansi_fg_red)
  have p: "\<forall>part. render_pixel ramp True brightness contrast gamma (255, 0, 0) = Inr part \<longrightarrow>
            (\<exists>ch. pixel_glyph ramp (255, 0, 0) brightness contrast gamma = Inr ch
                 \<and> part = (CHR 0x1B # ''[38;2;255;0;0m'') @ [ch])"
    using a by (auto dest: render_pixel_Inr)
  from g have "\<exists>glyphs. length glyphs = nat width
          \<and> (\<forall>x<nat width.
               pixel_glyph ramp (getpixel img (x, y)) brightness contrast gamma
                 = Inr (glyphs ! x))
          \<and> line = concat (map (\<lambda>x. (case getpixel img (x, y) of (r, g, b) \<Rightarrow> ansi_fg r g b)
                                       @ [glyphs ! x]) [0..<nat width]) @ RESET"
    by blast
  with o i a p show ?thesis by (intro conjI)
qed


theorem render_line_colour_witness:
  "render_line \<lparr>img_size = (1, 1), getpixel = (\<lambda>xy. (255, 0, 0))\<rparr> 1 '' .:-=+*#%@'' True
     1 1 1 0 = Inr ((CHR 0x1B # ''[38;2;255;0;0m'') @ ''.'' @ RESET)
   \<and> occurrences RESET ((CHR 0x1B # ''[38;2;255;0;0m'') @ ''.'' @ RESET) = 1
   \<and> render_pixel '' .:-=+*#%@'' True 1 1 1 (255, 0, 0) = Inr ((CHR 0x1B # ''[38;2;255;0;0m'') @ ''.'')"
  using render_line_colour [OF red_line] red_line
  by (auto simp add: render_line_def render_pixel_def split: sum.splits)

section \<open>Ramp selection\<close>

text \<open>
  C8: a non-empty \<open>--custom-ramp\<close> string is the ramp that is used, whatever \<open>--ramp\<close>
  selects. Without a custom ramp the preset is \<open>" .,:;i1tfLCG08@"\<close> for \<open>default\<close> and
  \<open>" .:-=+*#%@"\<close> otherwise, and \<open>alt\<close> is the value of \<open>--ramp\<close> when the flag is absent.
\<close>

theorem select_ramp_custom:
  "(args_custom_ramp args \<noteq> [] \<longrightarrow> select_ramp args = args_custom_ramp args)
   \<and> (args_custom_ramp args = [] \<longrightarrow>
        select_ramp args =
          (if args_ramp args = ''default'' then '' .,:;i1tfLCG08@'' else '' .:-=+*#%@''))
   \<and> args_ramp (parse_ramp_args None c) = ''alt''
   \<and> (c' \<noteq> [] \<longrightarrow> select_ramp (parse_ramp_args r (Some c')) = c')"
  by (simp add: select_ramp_def parse_ramp_args_def DEFAULT_RAMP_def ALT_RAMP_def)

theorem select_ramp_custom_witness:
  "''#.'' \<noteq> [] \<and> select_ramp (parse_ramp_args (Some ''default'') (Some ''#.'')) = ''#.''
   \<and> select_ramp (parse_ramp_args None None) = '' .:-=+*#%@''"
  using select_ramp_custom [of "parse_ramp_args None None" None "''#.''" "Some ''default''"]
  by (simp add: parse_ramp_args_def)

end
